theory Spec2Isabelle
  imports Complex_Main
begin

section \<open>Shared vocabulary\<close>

text \<open>
  The program is a single Python class, \<open>AutoClickerApp\<close>, whose methods mutate the
  fields of \<open>self\<close>. Each group of fields that one component owns becomes a record; a
  method becomes a function from the record to the updated record. A message box is
  returned as a value next to the state, and an exception that leaves a method is the
  \<open>Inl\<close> branch of a sum.
\<close>

datatype error = ValueError string | KeyError

datatype dialog = ShowWarning string string | ShowError string string | ShowInfo string string

section \<open>Hotkey bindings (\<open>HotkeyBinding\<close>, lines 35-44)\<close>

record HotkeyBinding =
  label :: string
  tokens :: "string set"
  display_text :: string


text \<open>
  The dictionary \<open>self.hotkeys\<close> keeps insertion order, and \<open>_process_hotkey_triggers\<close>
  iterates over it, so it is an association list. \<open>dict_assign\<close> is Python's
  \<open>d[k] = v\<close>: an existing key keeps its place, a new key goes to the end.
\<close>

type_synonym hotkey_dict = "(string \<times> HotkeyBinding) list"

fun dict_assign :: "string \<Rightarrow> 'v \<Rightarrow> (string \<times> 'v) list \<Rightarrow> (string \<times> 'v) list" where
  "dict_assign k v [] = [(k, v)]"
| "dict_assign k v ((k', v') # rest) =
     (if k' = k then (k, v) # rest else (k', v') # dict_assign k v rest)"

record hotkey_state =
  pressed_tokens :: "string set"
  trigger_latch :: "string set"
  recording_target :: "string option"
  recording_buffer :: "string set"
  hotkeys :: hotkey_dict
  hotkey_vars :: "(string \<times> string) list"
  status_var :: string



subsection \<open>\<open>_process_hotkey_triggers\<close> (lines 604-614)\<close>

text \<open>
  What a fired binding calls. The three methods act on the workers, never on the pressed
  set, the latch set or the bindings, so the loop records which one was called.
\<close>

datatype action = ToggleClicking | ToggleKeyPressing | PanicStop




subsection \<open>\<open>_release_latched_hotkeys\<close> (lines 616-618)\<close>


subsection \<open>\<open>_update_hotkey_binding\<close> (lines 627-643)\<close>

text \<open>
  \<open>_format_tokens\<close> only builds the text shown in the settings tab; it is passed in as
  \<open>format_tokens\<close>. \<open>run_reason\<close> is the click worker's field that the last line copies
  into the status line.
\<close>

definition collision :: "hotkey_dict \<Rightarrow> string \<Rightarrow> string set \<Rightarrow> string list" where
  "collision hks hotkey_id toks =
     map fst (filter (\<lambda>(hid, binding). hid \<noteq> hotkey_id \<and> tokens binding = toks) hks)"

definition update_hotkey_binding ::
  "(string set \<Rightarrow> string) \<Rightarrow> string \<Rightarrow> string \<Rightarrow> string set \<Rightarrow> hotkey_state
     \<Rightarrow> error + (hotkey_state \<times> dialog option)" where
  "update_hotkey_binding format_tokens run_reason hotkey_id toks st =
     (if toks = {} then
        Inr (st, Some (ShowWarning ''Hotkey'' ''Please press at least one key for the hotkey.''))
      else
        case collision (hotkeys st) hotkey_id toks of
          c # _ \<Rightarrow>
            (case map_of (hotkeys st) c of
               None \<Rightarrow> Inl KeyError
             | Some other \<Rightarrow>
                 Inr (st, Some (ShowWarning ''Hotkey''
                        (''This key combination is already used by '' @ label other @ ''.''))))
        | [] \<Rightarrow>
            (case map_of (hotkeys st) hotkey_id of
               None \<Rightarrow> Inl KeyError
             | Some old \<Rightarrow>
                 let display = format_tokens toks;
                     st1 = st\<lparr>hotkeys := dict_assign hotkey_id
                                 \<lparr>label = label old, tokens = toks, display_text = display\<rparr>
                                 (hotkeys st)\<rparr>
                 in if hotkey_id \<notin> fst ` set (hotkey_vars st1) then Inl KeyError
                    else Inr (st1\<lparr>hotkey_vars := dict_assign hotkey_id display (hotkey_vars st1),
                                  status_var := run_reason\<rparr>, None)))"

text \<open>
  Two facts about \<open>self.hotkeys\<close> that hold from \<open>__init__\<close> on: its keys are
  those of a dictionary (no key twice), and no binding has an empty token set.
\<close>

definition hotkeys_ok :: "hotkey_dict \<Rightarrow> bool" where
  "hotkeys_ok hks \<longleftrightarrow> distinct (map fst hks) \<and> (\<forall>(h, b) \<in> set hks. tokens b \<noteq> {})"


section \<open>Settings snapshots (lines 47-72, 1108-1206)\<close>

text \<open>
  \<open>mouse.Button\<close> and the keys of \<open>pynput\<close> belong to the input library. A key is a
  one-character string, a member of \<open>keyboard.Key\<close> (named by its attribute), or a
  \<open>keyboard.KeyCode\<close> with a virtual key number.
\<close>

datatype button = Button_left | Button_right | Button_middle | Button_other string

datatype key_value = KeyStr string | KeyMember string | KeyCode nat

text \<open>
  \<open>ClickSettings\<close> and \<open>KeyPressSettings\<close> have the same fields but the first one; the
  common seven are a record that each of the two extends. Python's \<open>float\<close> is read as
  \<open>real\<close>: the code only compares, adds, subtracts and divides by 1000.
\<close>

record settings =
  mode :: string
  base_interval :: real
  jitter :: real
  burst_count :: int
  start_delay :: real
  limit_enabled :: bool
  limit_count :: int

record ClickSettings = settings +
  button :: button

record KeyPressSettings = settings +
  sequence :: "key_value list"

text \<open>
  The Tk variables that the two forms are read from, after Tk has parsed them to numbers
  (\<open>DoubleVar\<close>, \<open>IntVar\<close>, \<open>BooleanVar\<close>, \<open>StringVar\<close>).
\<close>

record click_form =
  delay_var :: real
  jitter_var :: real
  burst_var :: int
  start_delay_var :: real
  limit_enabled_var :: bool
  limit_count_var :: int
  button_var :: string
  mode_var :: string

record key_form =
  key_sequence_var :: string
  key_delay_var :: real
  key_jitter_var :: real
  key_burst_var :: int
  key_start_delay_var :: real
  key_limit_enabled_var :: bool
  key_limit_count_var :: int
  key_mode_var :: string

definition BUTTON_MAP :: "(string \<times> button) list" where
  "BUTTON_MAP = [(''left'', Button_left), (''right'', Button_right), (''middle'', Button_middle)]"

subsection \<open>\<open>_collect_settings\<close> (lines 1108-1149)\<close>

text \<open>\<open>Inl msg\<close> is \<open>raise ValueError(msg)\<close>, the only exception the method raises.\<close>

definition collect_settings :: "click_form \<Rightarrow> string + ClickSettings" where
  "collect_settings f =
     (let delay_ms = delay_var f; jitter_ms = jitter_var f; burst = burst_var f;
          start_delay_s = start_delay_var f; limit_cnt = limit_count_var f
      in if delay_ms \<le> 0 then Inl ''Delay per cycle must be greater than zero.''
         else if jitter_ms < 0 then Inl ''Random jitter cannot be negative.''
         else if jitter_ms > delay_ms then Inl ''Random jitter should not exceed the base delay.''
         else if burst \<le> 0 then Inl ''Clicks per cycle must be at least 1.''
         else if start_delay_s < 0 then Inl ''Start delay cannot be negative.''
         else if limit_enabled_var f \<and> limit_cnt \<le> 0 then Inl ''Click limit must be at least 1.''
         else case map_of BUTTON_MAP (button_var f) of
           None \<Rightarrow> Inl ''Unsupported mouse button selection.''
         | Some b \<Rightarrow>
             if mode_var f \<notin> {''single'', ''double'', ''hold''}
             then Inl ''Invalid click mode selected.''
             else Inr \<lparr>mode = mode_var f,
                       base_interval = max (5 / 1000) (delay_ms / 1000),
                       jitter = jitter_ms / 1000,
                       burst_count = burst,
                       start_delay = start_delay_s,
                       limit_enabled = limit_enabled_var f,
                       limit_count = limit_cnt,
                       button = b\<rparr>)"

subsection \<open>\<open>_parse_key_sequence\<close> (lines 1151-1166)\<close>

text \<open>
  Strings are read as ASCII. \<open>split_plus\<close> is \<open>raw.split("+")\<close>, \<open>strip\<close> removes
  the white space of \<open>str.strip()\<close> at both ends, \<open>lower\<close> is \<open>str.lower()\<close>.
\<close>

fun split_plus :: "string \<Rightarrow> string list" where
  "split_plus [] = [[]]"
| "split_plus (c # cs) =
     (if c = CHR ''+'' then [] # split_plus cs
      else case split_plus cs of
             w # ws \<Rightarrow> (c # w) # ws
           | [] \<Rightarrow> [[c]])"

definition is_space :: "char \<Rightarrow> bool" where
  "is_space c = (let n = (of_char c :: nat) in (9 \<le> n \<and> n \<le> 13) \<or> (28 \<le> n \<and> n \<le> 32))"

definition strip :: "string \<Rightarrow> string" where
  "strip s = rev (dropWhile is_space (rev (dropWhile is_space s)))"

definition lower_char :: "char \<Rightarrow> char" where
  "lower_char c =
     (let n = (of_char c :: nat) in if 65 \<le> n \<and> n \<le> 90 then char_of (n + 32) else c)"

definition lower :: "string \<Rightarrow> string" where
  "lower s = map lower_char s"

text \<open>\<open>[token.strip() for token in raw.split("+") if token.strip()]\<close>\<close>

definition key_tokens :: "string \<Rightarrow> string list" where
  "key_tokens raw = filter (\<lambda>t. t \<noteq> []) (map strip (split_plus raw))"

text \<open>
  The loop over the tokens. \<open>key_attr name\<close> says whether \<open>getattr(keyboard.Key, name)\<close>
  finds an attribute; the names of \<open>keyboard.Key\<close> are the input library's.
\<close>

fun resolve_tokens :: "(string \<Rightarrow> bool) \<Rightarrow> string list \<Rightarrow> string + key_value list" where
  "resolve_tokens key_attr [] = Inr []"
| "resolve_tokens key_attr (token # rest) =
     (let low = lower token in
      if length low = 1 then
        (case resolve_tokens key_attr rest of
           Inl msg \<Rightarrow> Inl msg
         | Inr resolved \<Rightarrow> Inr (KeyStr low # resolved))
      else if key_attr low then
        (case resolve_tokens key_attr rest of
           Inl msg \<Rightarrow> Inl msg
         | Inr resolved \<Rightarrow> Inr (KeyMember low # resolved))
      else Inl (''Unknown key token: '' @ token))"

definition parse_key_sequence :: "(string \<Rightarrow> bool) \<Rightarrow> string \<Rightarrow> string + key_value list" where
  "parse_key_sequence key_attr raw =
     (let toks = key_tokens raw in
      if toks = [] then Inl ''Enter at least one key for the macro.''
      else resolve_tokens key_attr toks)"

subsection \<open>\<open>_collect_key_settings\<close> (lines 1168-1206)\<close>

definition collect_key_settings :: "(string \<Rightarrow> bool) \<Rightarrow> key_form \<Rightarrow> string + KeyPressSettings" where
  "collect_key_settings key_attr f =
     (case parse_key_sequence key_attr (key_sequence_var f) of
        Inl msg \<Rightarrow> Inl msg
      | Inr seq \<Rightarrow>
         let delay_ms = key_delay_var f; jitter_ms = key_jitter_var f; burst = key_burst_var f;
             start_delay_s = key_start_delay_var f; limit_cnt = key_limit_count_var f
         in if delay_ms \<le> 0 then Inl ''Delay per cycle must be greater than zero.''
            else if jitter_ms < 0 then Inl ''Random jitter cannot be negative.''
            else if jitter_ms > delay_ms then Inl ''Random jitter should not exceed the base delay.''
            else if burst \<le> 0 then Inl ''Cycles per batch must be at least 1.''
            else if start_delay_s < 0 then Inl ''Start delay cannot be negative.''
            else if key_limit_enabled_var f \<and> limit_cnt \<le> 0 then Inl ''Cycle limit must be at least 1.''
            else if key_mode_var f \<notin> {''tap'', ''double'', ''hold''}
            then Inl ''Invalid key mode selected.''
            else Inr \<lparr>mode = key_mode_var f,
                      base_interval = max (1 / 100) (delay_ms / 1000),
                      jitter = jitter_ms / 1000,
                      burst_count = burst,
                      start_delay = start_delay_s,
                      limit_enabled = key_limit_enabled_var f,
                      limit_count = limit_cnt,
                      sequence = seq\<rparr>)"

section \<open>What a worker thread sees of the rest of the program\<close>

text \<open>
  The three worker threads call the input controllers of \<open>pynput\<close> and share an
  \<open>Event\<close> and a reason string with the UI thread. A worker is modelled as a
  sequential function; what the other threads and the operating system do is given by an
  environment:
  \<^item> \<open>cancel e n\<close>: what the UI thread has done by the worker's \<open>n\<close>-th look at the
    shared state. \<open>stop_clicking\<close>, \<open>stop_key_pressing\<close> and \<open>stop_macro_playback\<close>
    write the reason \<open>Stopped\<close> and set the event; \<open>_panic_stop\<close> writes
    \<open>Emergency stop\<close> and sets the event.
  \<^item> \<open>raises e n\<close>: whether the \<open>n\<close>-th call of an input controller raises, and with
    which message.
  \<^item> \<open>clock e n\<close>: the value of the \<open>n\<close>-th call of \<open>time.time()\<close>.

  The durations passed to \<open>Event.wait\<close> and \<open>time.sleep\<close> are not represented: the
  outcome of each wait comes from \<open>cancel\<close>. Status texts that the workers post to the
  UI thread are left out.
\<close>

datatype port_call =
    MousePress button | MouseRelease button | MouseClick button int | MouseMove int int
  | KeyPress key_value | KeyRelease key_value

datatype canceller = StopRequest | PanicRequest

record env =
  cancel :: "nat \<Rightarrow> canceller option"
  raises :: "nat \<Rightarrow> string option"
  clock :: "nat \<Rightarrow> real"

text \<open>
  The fields every worker has. For the click worker \<open>stop_event\<close> and \<open>run_reason\<close>
  are the fields of these names; for the key worker they are \<open>key_stop_event\<close> and
  \<open>key_run_reason\<close>, for macro playback \<open>macro_stop_event\<close> and \<open>macro_run_reason\<close>.
  \<open>port_log\<close> lists the controller calls made so far, \<open>observed\<close> and \<open>clock_reads\<close>
  count the looks at the shared state and the calls of \<open>time.time()\<close>.
\<close>

record run =
  stop_event :: bool
  run_reason :: string
  port_log :: "port_call list"
  observed :: nat
  clock_reads :: nat

text \<open>Lines 772-773 and 785-790: the reason is written, then the event is set.\<close>

definition request :: "canceller \<Rightarrow> 'a run_scheme \<Rightarrow> 'a run_scheme" where
  "request c s =
     s\<lparr>run_reason := (case c of StopRequest \<Rightarrow> ''Stopped'' | PanicRequest \<Rightarrow> ''Emergency stop''),
       stop_event := True\<rparr>"

text \<open>
  One look at the shared state: \<open>stop_event.is_set()\<close> and \<open>stop_event.wait(t)\<close> are
  \<open>stop_event (poll e s)\<close>; the state goes on as \<open>poll e s\<close>.
\<close>

definition poll :: "env \<Rightarrow> 'a run_scheme \<Rightarrow> 'a run_scheme" where
  "poll e s =
     (let s' = s\<lparr>observed := Suc (observed s)\<rparr>
      in case cancel e (observed s) of None \<Rightarrow> s' | Some c \<Rightarrow> request c s')"

definition now :: "env \<Rightarrow> 'a run_scheme \<Rightarrow> real" where
  "now e s = clock e (clock_reads s)"

definition tick :: "'a run_scheme \<Rightarrow> 'a run_scheme" where
  "tick s = s\<lparr>clock_reads := Suc (clock_reads s)\<rparr>"

text \<open>
  A block of statements either runs to its end or is left by an exception; both carry
  the state reached. \<open>port\<close> is one call of an input controller: it is logged, and the
  environment says whether it raises.
\<close>

datatype 's flow = Done 's | Raised string 's

definition port :: "env \<Rightarrow> port_call \<Rightarrow> 'a run_scheme \<Rightarrow> 'a run_scheme flow" where
  "port e c s =
     (let s' = s\<lparr>port_log := port_log s @ [c]\<rparr>
      in case raises e (length (port_log s)) of None \<Rightarrow> Done s' | Some m \<Rightarrow> Raised m s')"

text \<open>\<open>try: ... except Exception: pass\<close>\<close>

definition swallow :: "'s flow \<Rightarrow> 's" where
  "swallow r = (case r of Done t \<Rightarrow> t | Raised m t \<Rightarrow> t)"

subsection \<open>The deferred start (lines 803-808, 893-898, 1040-1045)\<close>

text \<open>
  \<open>while time.time() < deadline and not stop_event.is_set()\<close>; the body reads the clock
  once more for the countdown text and sleeps. The loop has no bound of its own, so it
  takes fuel and \<open>None\<close> says that the fuel did not suffice.
\<close>

fun countdown :: "nat \<Rightarrow> env \<Rightarrow> real \<Rightarrow> 'a run_scheme \<Rightarrow> 'a run_scheme option" where
  "countdown 0 e deadline s = None"
| "countdown (Suc fuel) e deadline s =
     (if now e s < deadline then
        (let s1 = poll e (tick s) in
         if stop_event s1 then Some s1
         else countdown fuel e deadline (tick s1))
      else Some (tick s))"

definition start_delay_phase :: "nat \<Rightarrow> env \<Rightarrow> real \<Rightarrow> 'a run_scheme \<Rightarrow> 'a run_scheme option" where
  "start_delay_phase fuel e delay_s s =
     (if delay_s > 0 then countdown fuel e (now e s + delay_s) (tick s) else Some s)"

text \<open>
  \<open>if burst_count > 1 and not stop_event.is_set(): stop_event.wait(pause)\<close>, the pause
  between the repetitions of a burst.
\<close>

definition burst_pause :: "env \<Rightarrow> int \<Rightarrow> 'a run_scheme \<Rightarrow> 'a run_scheme" where
  "burst_pause e burst s =
     (if burst > 1 then (let s1 = poll e s in if \<not> stop_event s1 then poll e s1 else s1) else s)"

section \<open>The click worker (lines 748-849)\<close>

text \<open>
  The fields of \<open>self\<close> that belong to the click worker. \<open>click_status_var\<close> is
  \<open>self.status_var\<close>; \<open>click_thread\<close> holds the settings the running thread was started
  with, or \<open>None\<close>.
\<close>

record mouse_state = run +
  is_running :: bool
  start_timestamp :: "real option"
  last_elapsed_seconds :: int
  clicks_recorded :: int
  hold_pressed :: bool
  click_status_var :: string
  click_thread :: "ClickSettings option"

subsection \<open>\<open>start_clicking\<close> (lines 748-767)\<close>

text \<open>\<open>t\<close> is the value of \<open>time.time()\<close> at the call.\<close>

definition start_clicking :: "real \<Rightarrow> click_form \<Rightarrow> mouse_state \<Rightarrow> mouse_state \<times> dialog option" where
  "start_clicking t f st =
     (if is_running st then (st, None)
      else case collect_settings f of
        Inl msg \<Rightarrow> (st, Some (ShowError ''Invalid settings'' msg))
      | Inr cfg \<Rightarrow>
          (st\<lparr>stop_event := False,
              is_running := True,
              start_timestamp := Some t,
              last_elapsed_seconds := 0,
              clicks_recorded := 0,
              run_reason := ''Running'',
              hold_pressed := False,
              click_status_var := ''Running'',
              click_thread := Some cfg\<rparr>, None))"

subsection \<open>\<open>_click_worker\<close> (lines 801-849)\<close>

text \<open>The \<open>for\<close> loop over \<open>range(settings.burst_count)\<close> (lines 825-832).\<close>

fun click_burst :: "env \<Rightarrow> ClickSettings \<Rightarrow> nat \<Rightarrow> mouse_state \<Rightarrow> mouse_state flow" where
  "click_burst e cfg 0 s = Done s"
| "click_burst e cfg (Suc n) s =
     (let s1 = poll e s in
      if stop_event s1 then Done s1
      else
        let click_count = (if mode cfg = ''double'' then 2 else 1) in
        case port e (MouseClick (button cfg) click_count) s1 of
          Raised m s2 \<Rightarrow> Raised m s2
        | Done s2 \<Rightarrow>
            click_burst e cfg n
              (burst_pause e (burst_count cfg)
                 (s2\<lparr>clicks_recorded := clicks_recorded s2 + click_count\<rparr>)))"

text \<open>Lines 817-819: the button goes down unless it is held already.\<close>

definition click_hold_press :: "env \<Rightarrow> ClickSettings \<Rightarrow> mouse_state \<Rightarrow> mouse_state flow" where
  "click_hold_press e cfg s =
     (if \<not> hold_pressed s then
        (case port e (MousePress (button cfg)) s of
           Raised m t \<Rightarrow> Raised m t
         | Done t \<Rightarrow> Done (t\<lparr>hold_pressed := True\<rparr>))
      else Done s)"

text \<open>
  The \<open>while not self.stop_event.is_set()\<close> loop (lines 811-839). It ends only by a
  stop, the limit or an exception, so it takes fuel.
\<close>

fun click_loop :: "nat \<Rightarrow> env \<Rightarrow> ClickSettings \<Rightarrow> mouse_state \<Rightarrow> mouse_state flow option" where
  "click_loop 0 e cfg s = None"
| "click_loop (Suc fuel) e cfg s =
     (let s1 = poll e s in
      if stop_event s1 then Some (Done s1)
      else if limit_enabled cfg \<and> clicks_recorded s1 \<ge> limit_count cfg
        then Some (Done (s1\<lparr>run_reason := ''Limit reached''\<rparr>))
      else if mode cfg = ''hold'' then
        (case click_hold_press e cfg s1 of
           Raised m t \<Rightarrow> Some (Raised m t)
         | Done t \<Rightarrow>
             (let t1 = poll e t in
              if stop_event t1 then Some (Done t1) else click_loop fuel e cfg t1))
      else
        (case click_burst e cfg (nat (burst_count cfg)) s1 of
           Raised m t \<Rightarrow> Some (Raised m t)
         | Done t \<Rightarrow>
             (let t1 = poll e t in
              if stop_event t1 then Some (Done t1) else click_loop fuel e cfg t1)))"

text \<open>
  The \<open>finally\<close> block (lines 842-849). It ends by scheduling \<open>_finalize_mouse_stop\<close> on
  the UI thread, which makes no controller call.
\<close>

definition click_finally :: "env \<Rightarrow> ClickSettings \<Rightarrow> mouse_state \<Rightarrow> mouse_state" where
  "click_finally e cfg s =
     (if hold_pressed s
      then (swallow (port e (MouseRelease (button cfg)) s))\<lparr>hold_pressed := False\<rparr>
      else s)"

definition click_worker :: "nat \<Rightarrow> env \<Rightarrow> ClickSettings \<Rightarrow> mouse_state \<Rightarrow> mouse_state option" where
  "click_worker fuel e cfg s =
     (case start_delay_phase fuel e (start_delay cfg) s of
        None \<Rightarrow> None
      | Some s1 \<Rightarrow>
          (case click_loop fuel e cfg s1 of
             None \<Rightarrow> None
           | Some (Done s2) \<Rightarrow> Some (click_finally e cfg s2)
           | Some (Raised m s2) \<Rightarrow>
               Some (click_finally e cfg (s2\<lparr>run_reason := ''Error: '' @ m\<rparr>))))"

section \<open>The key worker (lines 854-941, 1208-1221)\<close>

record key_state = run +
  key_is_running :: bool
  key_start_timestamp :: "real option"
  key_last_elapsed_seconds :: int
  key_cycles_recorded :: int
  key_hold_active :: bool
  active_key_sequence :: "key_value list option"
  key_status_var :: string
  key_thread :: "KeyPressSettings option"

subsection \<open>\<open>start_key_pressing\<close> (lines 854-874)\<close>


subsection \<open>\<open>_press_sequence\<close>, \<open>_release_sequence\<close>, \<open>_tap_sequence\<close> (lines 1208-1221)\<close>

fun press_sequence :: "env \<Rightarrow> key_value list \<Rightarrow> 'a run_scheme \<Rightarrow> 'a run_scheme flow" where
  "press_sequence e [] s = Done s"
| "press_sequence e (k # ks) s =
     (case port e (KeyPress k) s of
        Raised m t \<Rightarrow> Raised m t
      | Done t \<Rightarrow> press_sequence e ks t)"

fun release_keys :: "env \<Rightarrow> key_value list \<Rightarrow> 'a run_scheme \<Rightarrow> 'a run_scheme flow" where
  "release_keys e [] s = Done s"
| "release_keys e (k # ks) s =
     (case port e (KeyRelease k) s of
        Raised m t \<Rightarrow> Raised m t
      | Done t \<Rightarrow> release_keys e ks t)"

text \<open>\<open>for key_token in reversed(sequence)\<close>\<close>

definition release_sequence :: "env \<Rightarrow> key_value list \<Rightarrow> 'a run_scheme \<Rightarrow> 'a run_scheme flow" where
  "release_sequence e ks s = release_keys e (rev ks) s"

fun tap_sequence :: "env \<Rightarrow> key_value list \<Rightarrow> nat \<Rightarrow> 'a run_scheme \<Rightarrow> 'a run_scheme flow" where
  "tap_sequence e ks 0 s = Done s"
| "tap_sequence e ks (Suc n) s =
     (case press_sequence e ks s of
        Raised m t \<Rightarrow> Raised m t
      | Done t \<Rightarrow>
          (case release_sequence e ks t of
             Raised m u \<Rightarrow> Raised m u
           | Done u \<Rightarrow> tap_sequence e ks n u))"

subsection \<open>\<open>_key_worker\<close> (lines 891-941)\<close>

text \<open>The \<open>for\<close> loop over \<open>range(settings.burst_count)\<close> (lines 917-924).\<close>

fun key_burst :: "env \<Rightarrow> KeyPressSettings \<Rightarrow> nat \<Rightarrow> key_state \<Rightarrow> key_state flow" where
  "key_burst e cfg 0 s = Done s"
| "key_burst e cfg (Suc n) s =
     (let s1 = poll e s in
      if stop_event s1 then Done s1
      else
        let repeats = (if mode cfg = ''double'' then 2 else 1) in
        case tap_sequence e (sequence cfg) repeats s1 of
          Raised m s2 \<Rightarrow> Raised m s2
        | Done s2 \<Rightarrow>
            key_burst e cfg n
              (burst_pause e (burst_count cfg)
                 (s2\<lparr>key_cycles_recorded := key_cycles_recorded s2 + 1\<rparr>)))"

text \<open>Lines 907-911: the sequence goes down unless it is held already.\<close>

definition key_hold_press :: "env \<Rightarrow> KeyPressSettings \<Rightarrow> key_state \<Rightarrow> key_state flow" where
  "key_hold_press e cfg s =
     (if \<not> key_hold_active s then
        (case press_sequence e (sequence cfg) s of
           Raised m t \<Rightarrow> Raised m t
         | Done t \<Rightarrow>
             (let t1 = t\<lparr>key_hold_active := True\<rparr>
              in Done (if key_cycles_recorded t1 = 0 then t1\<lparr>key_cycles_recorded := 1\<rparr> else t1)))
      else Done s)"

fun key_loop :: "nat \<Rightarrow> env \<Rightarrow> KeyPressSettings \<Rightarrow> key_state \<Rightarrow> key_state flow option" where
  "key_loop 0 e cfg s = None"
| "key_loop (Suc fuel) e cfg s =
     (let s1 = poll e s in
      if stop_event s1 then Some (Done s1)
      else if limit_enabled cfg \<and> key_cycles_recorded s1 \<ge> limit_count cfg
        then Some (Done (s1\<lparr>run_reason := ''Limit reached''\<rparr>))
      else if mode cfg = ''hold'' then
        (case key_hold_press e cfg s1 of
           Raised m t \<Rightarrow> Some (Raised m t)
         | Done t \<Rightarrow>
             (let t1 = poll e t in
              if stop_event t1 then Some (Done t1) else key_loop fuel e cfg t1))
      else
        (case key_burst e cfg (nat (burst_count cfg)) s1 of
           Raised m t \<Rightarrow> Some (Raised m t)
         | Done t \<Rightarrow>
             (let t1 = poll e t in
              if stop_event t1 then Some (Done t1) else key_loop fuel e cfg t1)))"

text \<open>
  The \<open>finally\<close> block (lines 934-941); it ends by scheduling \<open>_finalize_key_stop\<close> on
  the UI thread, which makes no controller call.
\<close>

definition key_finally :: "env \<Rightarrow> KeyPressSettings \<Rightarrow> key_state \<Rightarrow> key_state" where
  "key_finally e cfg s =
     (if key_hold_active s
      then (swallow (release_sequence e (sequence cfg) s))\<lparr>key_hold_active := False\<rparr>
      else s)"

definition key_worker :: "nat \<Rightarrow> env \<Rightarrow> KeyPressSettings \<Rightarrow> key_state \<Rightarrow> key_state option" where
  "key_worker fuel e cfg s =
     (case start_delay_phase fuel e (start_delay cfg) s of
        None \<Rightarrow> None
      | Some s1 \<Rightarrow>
          (case key_loop fuel e cfg s1 of
             None \<Rightarrow> None
           | Some (Done s2) \<Rightarrow> Some (key_finally e cfg s2)
           | Some (Raised m s2) \<Rightarrow>
               Some (key_finally e cfg (s2\<lparr>run_reason := ''Error: '' @ m\<rparr>))))"

section \<open>Macro recording and playback (lines 75-84, 676-710, 946-959, 1038-1098)\<close>

record MacroEvent =
  kind :: string
  action :: string
  delay :: real
  key_value :: "key_value option"
  mouse_button :: "button option"
  position :: "(int \<times> int) option"

text \<open>
  The fields of \<open>self\<close> that belong to the macro tab; \<open>stop_event\<close> and \<open>run_reason\<close>
  of the base record are \<open>macro_stop_event\<close> and \<open>macro_run_reason\<close>.
  \<open>macro_play_alive\<close> is \<open>self.macro_play_thread and self.macro_play_thread.is_alive()\<close>.
  The event counter text and the list box are left out.
\<close>

record macro_state = run +
  macro_events :: "MacroEvent list"
  macro_recording :: bool
  macro_start_time :: "real option"
  macro_last_timestamp :: "real option"
  block_macro_capture :: bool
  macro_play_alive :: bool
  macro_status_var :: string

subsection \<open>\<open>start_macro_recording\<close> (lines 946-959)\<close>

text \<open>\<open>t\<close> is the value of \<open>time.perf_counter()\<close> at the call.\<close>

definition start_macro_recording :: "real \<Rightarrow> macro_state \<Rightarrow> macro_state \<times> dialog option" where
  "start_macro_recording t st =
     (if macro_play_alive st
      then (st, Some (ShowInfo ''Macro'' ''Stop playback before recording a new sequence.''))
      else (st\<lparr>macro_events := [],
               macro_recording := True,
               block_macro_capture := False,
               macro_start_time := Some t,
               macro_last_timestamp := None,
               run_reason := ''Recording'',
               macro_status_var := ''Recording''\<rparr>, None))"

subsection \<open>\<open>_record_macro_event\<close> (lines 676-710)\<close>

text \<open>
  \<open>t\<close> is the value of \<open>time.perf_counter()\<close> inside the call; \<open>ev\<close> carries the
  keyword arguments (its \<open>delay\<close> field is not read).
\<close>

definition record_macro_event :: "real \<Rightarrow> MacroEvent \<Rightarrow> macro_state \<Rightarrow> macro_state" where
  "record_macro_event t ev st =
     (if \<not> macro_recording st \<or> block_macro_capture st then st
      else
        let start = (case macro_start_time st of None \<Rightarrow> t | Some t0 \<Rightarrow> t0);
            d = (case macro_last_timestamp st of None \<Rightarrow> t - start | Some prev \<Rightarrow> t - prev);
            event = ev\<lparr>delay := max 0 d\<rparr>
        in st\<lparr>macro_start_time := Some start,
              macro_last_timestamp := Some t,
              macro_events := macro_events st @ [event],
              macro_status_var := ''Recording''\<rparr>)"

text \<open>A recording session: the events captured after arming, each with its time.\<close>

fun record_all :: "(real \<times> MacroEvent) list \<Rightarrow> macro_state \<Rightarrow> macro_state" where
  "record_all [] st = st"
| "record_all ((t, ev) # rest) st = record_all rest (record_macro_event t ev st)"

text \<open>The differences between consecutive times, starting from \<open>t0\<close>.\<close>

fun gaps :: "real \<Rightarrow> real list \<Rightarrow> real list" where
  "gaps t0 [] = []"
| "gaps t0 (t # ts) = (t - t0) # gaps t ts"

subsection \<open>\<open>_apply_macro_event\<close> (lines 1070-1098)\<close>


text \<open>The controller calls that \<open>_apply_macro_event\<close> makes for one event.\<close>

definition event_calls :: "MacroEvent \<Rightarrow> port_call list" where
  "event_calls ev =
     (if kind ev = ''key'' then
        (case key_value ev of
           None \<Rightarrow> []
         | Some kv \<Rightarrow> [if action ev = ''press'' then KeyPress kv else KeyRelease kv])
      else if kind ev = ''mouse'' then
        (case position ev of None \<Rightarrow> [] | Some (x, y) \<Rightarrow> [MouseMove x y]) @
        (case mouse_button ev of
           None \<Rightarrow> []
         | Some b \<Rightarrow> [if action ev = ''press'' then MousePress b else MouseRelease b])
      else [])"

subsection \<open>\<open>_macro_play_worker\<close> (lines 1038-1068)\<close>





text \<open>The controller calls of a list of events, in order.\<close>

definition calls_of :: "MacroEvent list \<Rightarrow> port_call list" where
  "calls_of evs = concat (map event_calls evs)"

section \<open>The state \<open>__init__\<close> sets up (lines 127-189)\<close>

definition initial_click_form :: click_form where
  "initial_click_form =
     \<lparr>delay_var = 100, jitter_var = 0, burst_var = 1, start_delay_var = 0,
      limit_enabled_var = False, limit_count_var = 500,
      button_var = ''left'', mode_var = ''single''\<rparr>"

definition initial_key_form :: key_form where
  "initial_key_form =
     \<lparr>key_sequence_var = ''space'', key_delay_var = 150, key_jitter_var = 0,
      key_burst_var = 1, key_start_delay_var = 0, key_limit_enabled_var = False,
      key_limit_count_var = 500, key_mode_var = ''tap''\<rparr>"

definition initial_mouse_state :: mouse_state where
  "initial_mouse_state =
     \<lparr>stop_event = False, run_reason = ''Idle'', port_log = [], observed = 0, clock_reads = 0,
      is_running = False, start_timestamp = None, last_elapsed_seconds = 0,
      clicks_recorded = 0, hold_pressed = False, click_status_var = ''Idle'',
      click_thread = None\<rparr>"

definition initial_key_state :: key_state where
  "initial_key_state =
     \<lparr>stop_event = False, run_reason = ''Idle'', port_log = [], observed = 0, clock_reads = 0,
      key_is_running = False, key_start_timestamp = None, key_last_elapsed_seconds = 0,
      key_cycles_recorded = 0, key_hold_active = False, active_key_sequence = None,
      key_status_var = ''Idle'', key_thread = None\<rparr>"

definition initial_macro_state :: macro_state where
  "initial_macro_state =
     \<lparr>stop_event = False, run_reason = ''Idle'', port_log = [], observed = 0, clock_reads = 0,
      macro_events = [], macro_recording = False, macro_start_time = None,
      macro_last_timestamp = None, block_macro_capture = False, macro_play_alive = False,
      macro_status_var = ''Idle''\<rparr>"

text \<open>
  Environments for examples: nobody stops the worker and no controller call fails; the
  clock stands still. \<open>stopped_at n\<close> has the stop requested from the \<open>n\<close>-th look on.
\<close>

definition quiet :: env where
  "quiet = \<lparr>cancel = (\<lambda>n. None), raises = (\<lambda>n. None), clock = (\<lambda>n. 0)\<rparr>"

definition stopped_at :: "nat \<Rightarrow> env" where
  "stopped_at k = quiet\<lparr>cancel := (\<lambda>n. if k \<le> n then Some StopRequest else None)\<rparr>"

text \<open>A few names of \<open>keyboard.Key\<close>, enough for the examples.\<close>

definition some_keys :: "string \<Rightarrow> bool" where
  "some_keys name = (name \<in> {''space'', ''enter'', ''shift'', ''ctrl'', ''alt'', ''tab'', ''esc''})"

text \<open>A captured mouse event at the point (10, 20), before its delay is filled in.\<close>

definition click_at :: "string \<Rightarrow> MacroEvent" where
  "click_at a = \<lparr>kind = ''mouse'', action = a, delay = 0, key_value = None,
                 mouse_button = Some Button_left, position = Some (10, 20)\<rparr>"


text \<open>
  The snapshots of the initial forms with the mode set to hold (the key form with the
  sequence \<open>shift+a\<close>), and the states in which \<open>start_clicking\<close> and
  \<open>start_key_pressing\<close> hand them to the worker threads at time 0.
\<close>

definition hold_click :: ClickSettings where
  "hold_click = \<lparr>mode = ''hold'', base_interval = 1 / 10, jitter = 0, burst_count = 1,
                 start_delay = 0, limit_enabled = False, limit_count = 500,
                 button = Button_left\<rparr>"

definition hold_keys :: KeyPressSettings where
  "hold_keys = \<lparr>mode = ''hold'', base_interval = 3 / 20, jitter = 0, burst_count = 1,
                start_delay = 0, limit_enabled = False, limit_count = 500,
                sequence = [KeyMember ''shift'', KeyStr ''a'']\<rparr>"

definition running_mouse :: "ClickSettings \<Rightarrow> mouse_state" where
  "running_mouse cfg =
     initial_mouse_state\<lparr>is_running := True, start_timestamp := Some 0,
        run_reason := ''Running'', click_status_var := ''Running'', click_thread := Some cfg\<rparr>"

definition running_keys :: "KeyPressSettings \<Rightarrow> key_state" where
  "running_keys cfg =
     initial_key_state\<lparr>key_is_running := True, key_start_timestamp := Some 0,
        run_reason := ''Running'', active_key_sequence := Some (sequence cfg),
        key_status_var := ''Running'', key_thread := Some cfg\<rparr>"

text \<open>A key snapshot in double mode: one repetition per cycle, the sequence is the key \<open>a\<close>.\<close>

definition double_keys :: KeyPressSettings where
  "double_keys = \<lparr>mode = ''double'', base_interval = 3 / 20, jitter = 0, burst_count = 1,
                  start_delay = 0, limit_enabled = False, limit_count = 500,
                  sequence = [KeyStr ''a'']\<rparr>"





section \<open>Properties of the hotkey matcher\<close>






lemma dict_assign_keys:
  "k \<in> fst ` set d \<Longrightarrow> map fst (dict_assign k v d) = map fst d"
  by (induction d) force+


lemma set_dict_assign:
  "(h, b) \<in> set (dict_assign k v d) \<Longrightarrow> (h = k \<and> b = v) \<or> (h, b) \<in> set d"
  by (induction d) (auto split: if_splits)








lemma update_ok:
  assumes "hotkeys_ok (hotkeys st)" and "update_hotkey_binding fmt rr t toks st = Inr (st', d)"
  shows "hotkeys_ok (hotkeys st') \<and> map fst (hotkeys st') = map fst (hotkeys st)"
proof (cases "d")
  case (Some w)
  then have "st' = st" using assms(2)
    by (auto simp: update_hotkey_binding_def Let_def split: if_splits list.splits option.splits)
  then show ?thesis using assms(1) by simp
next
  case None
  then obtain old where old: "map_of (hotkeys st) t = Some old" and ne: "toks \<noteq> {}"
    and h: "hotkeys st' = dict_assign t \<lparr>label = label old, tokens = toks, display_text = fmt toks\<rparr> (hotkeys st)"
    using assms(2)
    by (auto simp: update_hotkey_binding_def Let_def split: if_splits list.splits option.splits)
  have k: "t \<in> fst ` set (hotkeys st)" using old by (metis domI dom_map_of_conv_image_fst)
  have keys: "map fst (hotkeys st') = map fst (hotkeys st)" unfolding h by (rule dict_assign_keys[OF k])
  have "\<forall>(h, b) \<in> set (hotkeys st'). tokens b \<noteq> {}"
    using assms(1) ne unfolding h hotkeys_ok_def by (auto dest!: set_dict_assign)
  then show ?thesis using keys assms(1) by (simp add: hotkeys_ok_def)
qed





section \<open>Properties of validation and start\<close>

lemma collect_settings_Inr:
  "collect_settings f = Inr cfg \<Longrightarrow>
     base_interval cfg = max (5 / 1000) (delay_var f / 1000) \<and> jitter cfg = jitter_var f / 1000
     \<and> burst_count cfg = burst_var f \<and> start_delay cfg = start_delay_var f
     \<and> limit_enabled cfg = limit_enabled_var f \<and> limit_count cfg = limit_count_var f
     \<and> mode cfg = mode_var f"
  unfolding collect_settings_def Let_def
  by (auto split: if_splits option.splits)

lemma collect_key_settings_Inr:
  "collect_key_settings ka f = Inr cfg \<Longrightarrow>
     base_interval cfg = max (1 / 100) (key_delay_var f / 1000) \<and> jitter cfg = key_jitter_var f / 1000
     \<and> burst_count cfg = key_burst_var f \<and> start_delay cfg = key_start_delay_var f
     \<and> limit_enabled cfg = key_limit_enabled_var f \<and> limit_count cfg = key_limit_count_var f
     \<and> mode cfg = key_mode_var f"
  unfolding collect_key_settings_def Let_def
  by (auto split: if_splits sum.splits)











text \<open>
  Claim C10. Validation only asks for a positive delay; the snapshot then takes
  \<open>max(0.005, delay_ms / 1000)\<close> for the click worker and \<open>max(0.01, delay_ms / 1000)\<close>
  for the key worker. So whenever the entered delay is below the floor, the captured
  \<open>base_interval\<close> is the floor and differs from the entered value.
\<close>

theorem base_interval_clamped:
  "(collect_settings f = Inr cfg \<longrightarrow>
      base_interval cfg = max (5 / 1000) (delay_var f / 1000)
      \<and> (delay_var f / 1000 < 5 / 1000 \<longrightarrow>
           base_interval cfg = 5 / 1000 \<and> base_interval cfg \<noteq> delay_var f / 1000))
   \<and> (collect_key_settings key_attr g = Inr kcfg \<longrightarrow>
      base_interval kcfg = max (1 / 100) (key_delay_var g / 1000)
      \<and> (key_delay_var g / 1000 < 1 / 100 \<longrightarrow>
           base_interval kcfg = 1 / 100 \<and> base_interval kcfg \<noteq> key_delay_var g / 1000))"
proof (intro conjI impI)
  assume a: "collect_settings f = Inr cfg"
  show b: "base_interval cfg = max (5 / 1000) (delay_var f / 1000)"
    using collect_settings_Inr[OF a] by simp
  assume "delay_var f / 1000 < 5 / 1000"
  then show "base_interval cfg = 5 / 1000" "base_interval cfg \<noteq> delay_var f / 1000"
    using b by simp_all
next
  assume a: "collect_key_settings key_attr g = Inr kcfg"
  show b: "base_interval kcfg = max (1 / 100) (key_delay_var g / 1000)"
    using collect_key_settings_Inr[OF a] by simp
  assume "key_delay_var g / 1000 < 1 / 100"
  then show "base_interval kcfg = 1 / 100" "base_interval kcfg \<noteq> key_delay_var g / 1000"
    using b by simp_all
qed

lemma key_tokens_space: "key_tokens ''space'' = [''space'']"
  by (simp add: key_tokens_def strip_def is_space_def)

lemma lower_space: "lower ''space'' = ''space''"
  by (simp add: lower_def lower_char_def)

lemma parse_space: "parse_key_sequence some_keys ''space'' = Inr [KeyMember ''space'']"
  by (simp add: parse_key_sequence_def key_tokens_space lower_space some_keys_def)

lemma collect_two_ms:
  "collect_settings (initial_click_form\<lparr>delay_var := 2\<rparr>) =
     Inr \<lparr>mode = ''single'', base_interval = 5 / 1000, jitter = 0, burst_count = 1,
          start_delay = 0, limit_enabled = False, limit_count = 500, button = Button_left\<rparr>"
  by (simp add: collect_settings_def initial_click_form_def BUTTON_MAP_def)

lemma collect_key_two_ms:
  "collect_key_settings some_keys (initial_key_form\<lparr>key_delay_var := 2\<rparr>) =
     Inr \<lparr>mode = ''tap'', base_interval = 1 / 100, jitter = 0, burst_count = 1,
          start_delay = 0, limit_enabled = False, limit_count = 500,
          sequence = [KeyMember ''space'']\<rparr>"
  by (simp add: collect_key_settings_def initial_key_form_def parse_space)

theorem base_interval_clamped_witness:
  "(\<exists>cfg. collect_settings (initial_click_form\<lparr>delay_var := 2\<rparr>) = Inr cfg
      \<and> delay_var (initial_click_form\<lparr>delay_var := 2\<rparr>) / 1000 < 5 / 1000
      \<and> base_interval cfg = 5 / 1000)
   \<and> (\<exists>kcfg. collect_key_settings some_keys (initial_key_form\<lparr>key_delay_var := 2\<rparr>) = Inr kcfg
      \<and> key_delay_var (initial_key_form\<lparr>key_delay_var := 2\<rparr>) / 1000 < 1 / 100
      \<and> base_interval kcfg = 1 / 100)"
proof -
  let ?f = "initial_click_form\<lparr>delay_var := 2\<rparr>"
  let ?g = "initial_key_form\<lparr>key_delay_var := 2\<rparr>"
  let ?c = "\<lparr>mode = ''single'', base_interval = 5 / 1000, jitter = 0, burst_count = 1,
          start_delay = 0, limit_enabled = False, limit_count = 500, button = Button_left\<rparr>"
  let ?k = "\<lparr>mode = ''tap'', base_interval = 1 / 100, jitter = 0, burst_count = 1,
          start_delay = 0, limit_enabled = False, limit_count = 500,
          sequence = [KeyMember ''space'']\<rparr>"
  have small: "delay_var ?f / 1000 < 5 / 1000" "key_delay_var ?g / 1000 < 1 / 100"
    by simp_all
  note T = base_interval_clamped[of ?f ?c some_keys ?g ?k]
  have c: "base_interval ?c = 5 / 1000"
    using T[THEN conjunct1, rule_format, OF collect_two_ms, THEN conjunct2, rule_format, OF small(1)]
    by simp
  have k: "base_interval ?k = 1 / 100"
    using T[THEN conjunct2, rule_format, OF collect_key_two_ms, THEN conjunct2, rule_format, OF small(2)]
    by simp
  have A: "\<exists>cfg. collect_settings ?f = Inr cfg \<and> delay_var ?f / 1000 < 5 / 1000 \<and> base_interval cfg = 5 / 1000"
    by (rule exI[of _ ?c]) (intro conjI collect_two_ms small(1) c)
  have B: "\<exists>kcfg. collect_key_settings some_keys ?g = Inr kcfg
      \<and> key_delay_var ?g / 1000 < 1 / 100 \<and> base_interval kcfg = 1 / 100"
    by (rule exI[of _ ?k]) (intro conjI collect_key_two_ms small(2) k)
  show ?thesis using A B by (intro conjI)
qed










section \<open>Properties of macro recording\<close>

lemma record_macro_event_step:
  assumes "macro_recording st" and "\<not> block_macro_capture st"
    and "macro_start_time st = Some a"
    and "macro_last_timestamp st = None \<and> r = a \<or> macro_last_timestamp st = Some r"
    and "r \<le> t"
  shows "record_macro_event t ev st =
           st\<lparr>macro_start_time := Some a, macro_last_timestamp := Some t,
              macro_events := macro_events st @ [ev\<lparr>delay := t - r\<rparr>],
              macro_status_var := ''Recording''\<rparr>"
  using assms by (auto simp: record_macro_event_def Let_def max_def)

lemma record_all_events:
  assumes "macro_recording st" and "\<not> block_macro_capture st"
    and "macro_start_time st = Some a"
    and "macro_last_timestamp st = None \<and> r = a \<or> macro_last_timestamp st = Some r"
    and "sorted (r # map fst evs)"
  shows "map delay (macro_events (record_all evs st)) = map delay (macro_events st) @ gaps r (map fst evs)
       \<and> map (\<lambda>ev. ev\<lparr>delay := 0\<rparr>) (macro_events (record_all evs st)) =
           map (\<lambda>ev. ev\<lparr>delay := 0\<rparr>) (macro_events st @ map snd evs)"
  using assms
proof (induction evs arbitrary: st r)
  case Nil
  then show ?case by simp
next
  case (Cons p evs)
  obtain t ev where p: "p = (t, ev)" by (cases p)
  have rt: "r \<le> t" and srt: "sorted (t # map fst evs)"
    using Cons.prems(5) p by auto
  let ?st' = "st\<lparr>macro_start_time := Some a, macro_last_timestamp := Some t,
              macro_events := macro_events st @ [ev\<lparr>delay := t - r\<rparr>],
              macro_status_var := ''Recording''\<rparr>"
  have step: "record_macro_event t ev st = ?st'"
    by (rule record_macro_event_step[OF Cons.prems(1-4) rt])
  have IH: "map delay (macro_events (record_all evs ?st')) = map delay (macro_events ?st') @ gaps t (map fst evs)
       \<and> map (\<lambda>ev. ev\<lparr>delay := 0\<rparr>) (macro_events (record_all evs ?st')) =
           map (\<lambda>ev. ev\<lparr>delay := 0\<rparr>) (macro_events ?st' @ map snd evs)"
    by (rule Cons.IH[of ?st' t]) (use Cons.prems srt in simp_all)
  show ?case using IH by (simp add: p step)
qed

text \<open>
  Claim C6. A session is armed at \<open>t0\<close> by \<open>start_macro_recording\<close> and then captures
  the events \<open>evs\<close>, each at its time; \<open>time.perf_counter()\<close> never goes back. The
  stored delays are the gaps: the first is the time since arming, each later one the
  time since the event recorded before it. The events are stored in the order captured,
  with every other field as captured.
\<close>

theorem recorded_delays_are_gaps:
  assumes "start_macro_recording t0 st = (st0, None)"
    and "sorted (t0 # map fst evs)"
  shows "map delay (macro_events (record_all evs st0)) = gaps t0 (map fst evs)
       \<and> map (\<lambda>ev. ev\<lparr>delay := 0\<rparr>) (macro_events (record_all evs st0)) =
           map (\<lambda>ev. ev\<lparr>delay := 0\<rparr>) (map snd evs)"
proof -
  have st0: "st0 = st\<lparr>macro_events := [], macro_recording := True, block_macro_capture := False,
               macro_start_time := Some t0, macro_last_timestamp := None,
               run_reason := ''Recording'', macro_status_var := ''Recording''\<rparr>"
    using assms(1) by (auto simp: start_macro_recording_def split: if_splits)
  have "map delay (macro_events (record_all evs st0)) = map delay (macro_events st0) @ gaps t0 (map fst evs)
       \<and> map (\<lambda>ev. ev\<lparr>delay := 0\<rparr>) (macro_events (record_all evs st0)) =
           map (\<lambda>ev. ev\<lparr>delay := 0\<rparr>) (macro_events st0 @ map snd evs)"
    by (rule record_all_events[of st0 t0 t0]) (use assms(2) in \<open>simp_all add: st0\<close>)
  then show ?thesis by (simp add: st0)
qed

theorem recorded_delays_are_gaps_witness:
  "start_macro_recording 1 initial_macro_state =
     (initial_macro_state\<lparr>macro_recording := True, macro_start_time := Some 1,
        run_reason := ''Recording'', macro_status_var := ''Recording''\<rparr>, None)
   \<and> sorted ((1::real) # map fst [(3 / 2, click_at ''press''), (7 / 4, click_at ''release'')])
   \<and> map delay (macro_events (record_all [(3 / 2, click_at ''press''), (7 / 4, click_at ''release'')]
        (initial_macro_state\<lparr>macro_recording := True, macro_start_time := Some 1,
           run_reason := ''Recording'', macro_status_var := ''Recording''\<rparr>)))
       = [1 / 2, 1 / 4]"
proof -
  let ?st0 = "initial_macro_state\<lparr>macro_recording := True, macro_start_time := Some 1,
        run_reason := ''Recording'', macro_status_var := ''Recording''\<rparr>"
  let ?evs = "[(3 / 2, click_at ''press''), (7 / 4, click_at ''release'')] :: (real \<times> MacroEvent) list"
  have h1: "start_macro_recording 1 initial_macro_state = (?st0, None)"
    by (simp add: start_macro_recording_def initial_macro_state_def)
  have h2: "sorted (1 # map fst ?evs)" by simp
  have "map delay (macro_events (record_all ?evs ?st0)) = gaps 1 (map fst ?evs)"
    using recorded_delays_are_gaps[OF h1 h2] by (rule conjunct1)
  also have "gaps 1 (map fst ?evs) = [1 / 2, 1 / 4]" by simp
  finally have c: "map delay (macro_events (record_all ?evs ?st0)) = [1 / 2, 1 / 4]" .
  show ?thesis using h1 h2 c by (intro conjI)
qed

section \<open>Properties of the workers in hold mode\<close>

subsection \<open>Looks at the shared state and controller calls\<close>

lemma poll_run [simp]:
  "port_log (poll e s) = port_log s"
  "clock_reads (poll e s) = clock_reads s"
  "observed (poll e s) = Suc (observed s)"
  by (simp_all add: poll_def request_def Let_def split: option.splits)

lemma poll_stop_event:
  "stop_event (poll e s) \<longleftrightarrow> stop_event s \<or> cancel e (observed s) \<noteq> None"
  by (auto simp: poll_def request_def Let_def split: option.splits)

lemma poll_quiet:
  "cancel e (observed s) = None \<Longrightarrow> poll e s = s\<lparr>observed := Suc (observed s)\<rparr>"
  by (simp add: poll_def)

lemma poll_mouse [simp]:
  "clicks_recorded (poll e s) = clicks_recorded s"
  "hold_pressed (poll e s) = hold_pressed s"
  "is_running (poll e s) = is_running s"
  by (simp_all add: poll_def request_def Let_def split: option.splits)

lemma poll_key [simp]:
  "key_cycles_recorded (poll e s) = key_cycles_recorded s"
  "key_hold_active (poll e s) = key_hold_active s"
  by (simp_all add: poll_def request_def Let_def split: option.splits)

lemma tick_run [simp]:
  "port_log (tick s) = port_log s"
  "observed (tick s) = observed s"
  "stop_event (tick s) = stop_event s"
  "run_reason (tick s) = run_reason s"
  "clock_reads (tick s) = Suc (clock_reads s)"
  by (simp_all add: tick_def)

lemma tick_mouse [simp]:
  "clicks_recorded (tick s) = clicks_recorded s"
  "hold_pressed (tick s) = hold_pressed s"
  by (simp_all add: tick_def)

lemma tick_key [simp]:
  "key_cycles_recorded (tick s) = key_cycles_recorded s"
  "key_hold_active (tick s) = key_hold_active s"
  by (simp_all add: tick_def)

lemma burst_pause_run [simp]:
  "port_log (burst_pause e b s) = port_log s"
  "clock_reads (burst_pause e b s) = clock_reads s"
  by (simp_all add: burst_pause_def Let_def)

lemma burst_pause_mouse [simp]:
  "clicks_recorded (burst_pause e b s) = clicks_recorded s"
  "hold_pressed (burst_pause e b s) = hold_pressed s"
  by (simp_all add: burst_pause_def Let_def)

lemma burst_pause_key [simp]:
  "key_cycles_recorded (burst_pause e b s) = key_cycles_recorded s"
  "key_hold_active (burst_pause e b s) = key_hold_active s"
  by (simp_all add: burst_pause_def Let_def)

lemma port_cases:
  "(port e c s = Done (s\<lparr>port_log := port_log s @ [c]\<rparr>) \<and> raises e (length (port_log s)) = None)
   \<or> (\<exists>m. port e c s = Raised m (s\<lparr>port_log := port_log s @ [c]\<rparr>)
          \<and> raises e (length (port_log s)) = Some m)"
  by (simp add: port_def Let_def split: option.splits)

lemma port_Done:
  "port e c s = Done t \<Longrightarrow>
     t = s\<lparr>port_log := port_log s @ [c]\<rparr> \<and> raises e (length (port_log s)) = None"
  by (auto simp: port_def Let_def split: option.splits)

lemma port_Raised:
  "port e c s = Raised m t \<Longrightarrow>
     t = s\<lparr>port_log := port_log s @ [c]\<rparr> \<and> raises e (length (port_log s)) = Some m"
  by (auto simp: port_def Let_def split: option.splits)

lemma port_quiet:
  "raises e (length (port_log s)) = None \<Longrightarrow> port e c s = Done (s\<lparr>port_log := port_log s @ [c]\<rparr>)"
  by (simp add: port_def)

lemma swallow_port:
  "swallow (port e c s) = s\<lparr>port_log := port_log s @ [c]\<rparr>"
  by (simp add: swallow_def port_def Let_def split: option.splits)

subsection \<open>The deferred start touches neither the controllers nor the counters\<close>

lemma countdown_keeps:
  "countdown fuel e d s = Some t \<Longrightarrow> port_log t = port_log s"
  by (induction fuel e d s rule: countdown.induct) (auto simp: Let_def split: if_splits)

lemma countdown_keeps_mouse:
  "countdown fuel e d s = Some t \<Longrightarrow>
     clicks_recorded t = clicks_recorded s \<and> hold_pressed t = hold_pressed s"
  by (induction fuel e d s rule: countdown.induct) (auto simp: Let_def split: if_splits)

lemma countdown_keeps_key:
  "countdown fuel e d s = Some t \<Longrightarrow>
     key_cycles_recorded t = key_cycles_recorded s \<and> key_hold_active t = key_hold_active s"
  by (induction fuel e d s rule: countdown.induct) (auto simp: Let_def split: if_splits)

lemma start_delay_phase_keeps:
  "start_delay_phase fuel e d s = Some t \<Longrightarrow> port_log t = port_log s"
  by (auto simp: start_delay_phase_def dest!: countdown_keeps split: if_splits)

lemma start_delay_phase_keeps_mouse:
  "start_delay_phase fuel e d s = Some t \<Longrightarrow>
     clicks_recorded t = clicks_recorded s \<and> hold_pressed t = hold_pressed s"
  by (auto simp: start_delay_phase_def dest!: countdown_keeps_mouse split: if_splits)

lemma start_delay_phase_keeps_key:
  "start_delay_phase fuel e d s = Some t \<Longrightarrow>
     key_cycles_recorded t = key_cycles_recorded s \<and> key_hold_active t = key_hold_active s"
  by (auto simp: start_delay_phase_def dest!: countdown_keeps_key split: if_splits)

lemma start_delay_phase_none:
  "d \<le> 0 \<Longrightarrow> start_delay_phase fuel e d s = Some s"
  by (simp add: start_delay_phase_def)

subsection \<open>The click worker in hold mode\<close>

lemma click_hold_press_cases:
  assumes "\<not> hold_pressed s"
  shows "(click_hold_press e cfg s = Done (s\<lparr>port_log := port_log s @ [MousePress (button cfg)],
                                             hold_pressed := True\<rparr>)
            \<and> raises e (length (port_log s)) = None)
       \<or> (\<exists>m. click_hold_press e cfg s = Raised m (s\<lparr>port_log := port_log s @ [MousePress (button cfg)]\<rparr>)
            \<and> raises e (length (port_log s)) = Some m)"
  using assms by (simp add: click_hold_press_def port_def Let_def split: option.splits)

lemma click_hold_press_held:
  "hold_pressed s \<Longrightarrow> click_hold_press e cfg s = Done s"
  by (simp add: click_hold_press_def)

lemma click_loop_stop:
  "stop_event (poll e s) \<Longrightarrow> click_loop (Suc f) e cfg s = Some (Done (poll e s))"
  by (simp add: Let_def)

lemma click_loop_limit:
  "\<not> stop_event (poll e s) \<Longrightarrow> limit_enabled cfg \<Longrightarrow> limit_count cfg \<le> clicks_recorded s \<Longrightarrow>
   click_loop (Suc f) e cfg s = Some (Done ((poll e s)\<lparr>run_reason := ''Limit reached''\<rparr>))"
  by (simp add: Let_def)

lemma click_loop_cycle:
  assumes "\<not> stop_event (poll e s)" and "\<not> (limit_enabled cfg \<and> limit_count cfg \<le> clicks_recorded s)"
  shows "click_loop (Suc f) e cfg s =
     (case (if mode cfg = ''hold'' then click_hold_press e cfg (poll e s)
            else click_burst e cfg (nat (burst_count cfg)) (poll e s)) of
        Raised m t \<Rightarrow> Some (Raised m t)
      | Done t \<Rightarrow> (if stop_event (poll e t) then Some (Done (poll e t))
                    else click_loop f e cfg (poll e t)))"
proof (cases "limit_enabled cfg")
  case True
  with assms have "\<not> limit_count cfg \<le> clicks_recorded s" by simp
  with assms(1) show ?thesis by (simp add: Let_def split: flow.splits)
next
  case False
  with assms(1) show ?thesis by (simp add: Let_def split: flow.splits)
qed

lemma click_loop_held:
  assumes "mode cfg = ''hold''"
  shows "hold_pressed s \<Longrightarrow> click_loop fuel e cfg s = Some r \<Longrightarrow>
     \<exists>t. r = Done t \<and> port_log t = port_log s \<and> hold_pressed t
          \<and> clicks_recorded t = clicks_recorded s"
proof (induction fuel arbitrary: s)
  case 0
  then show ?case by simp
next
  case (Suc fuel)
  let ?s1 = "poll e s"
  have h1: "hold_pressed ?s1" using Suc.prems(1) by simp
  show ?case
  proof (cases "stop_event ?s1")
    case True
    then have "r = Done ?s1" using Suc.prems(2) click_loop_stop[OF True] by simp
    then show ?thesis using h1 by simp
  next
    case ns: False
    show ?thesis
    proof (cases "limit_enabled cfg \<and> limit_count cfg \<le> clicks_recorded s")
      case True
      then have "r = Done (?s1\<lparr>run_reason := ''Limit reached''\<rparr>)"
        using Suc.prems(2) click_loop_limit[OF ns, of cfg fuel] by simp
      then show ?thesis using h1 by simp
    next
      case nl: False
      let ?t1 = "poll e ?s1"
      have body: "click_loop (Suc fuel) e cfg s =
            (if stop_event ?t1 then Some (Done ?t1) else click_loop fuel e cfg ?t1)"
        unfolding click_loop_cycle[OF ns nl] using assms h1 by (simp add: click_hold_press_held)
      show ?thesis
      proof (cases "stop_event ?t1")
        case True
        then have "r = Done ?t1" using Suc.prems(2) body by simp
        then show ?thesis using h1 by simp
      next
        case False
        then have "click_loop fuel e cfg ?t1 = Some r" using Suc.prems(2) body by simp
        from Suc.IH[OF _ this] h1 show ?thesis by simp
      qed
    qed
  qed
qed

lemma click_loop_hold:
  assumes hold: "mode cfg = ''hold''" and up: "\<not> hold_pressed s"
    and run: "click_loop fuel e cfg s = Some r"
  shows "(\<exists>t. r = Done t \<and> port_log t = port_log s \<and> \<not> hold_pressed t
              \<and> clicks_recorded t = clicks_recorded s)
       \<or> (\<exists>m t. r = Raised m t \<and> port_log t = port_log s @ [MousePress (button cfg)]
              \<and> \<not> hold_pressed t \<and> clicks_recorded t = clicks_recorded s
              \<and> raises e (length (port_log s)) = Some m)
       \<or> (\<exists>t. r = Done t \<and> port_log t = port_log s @ [MousePress (button cfg)]
              \<and> hold_pressed t \<and> clicks_recorded t = clicks_recorded s
              \<and> raises e (length (port_log s)) = None)"
proof (cases fuel)
  case 0
  then show ?thesis using run by simp
next
  case (Suc f)
  let ?s1 = "poll e s"
  have u1: "\<not> hold_pressed ?s1" using up by simp
  have run': "click_loop (Suc f) e cfg s = Some r" using run Suc by simp
  show ?thesis
  proof (cases "stop_event ?s1")
    case True
    then have "r = Done ?s1" using run' click_loop_stop[OF True] by simp
    then show ?thesis using u1 by simp
  next
    case ns: False
    show ?thesis
    proof (cases "limit_enabled cfg \<and> limit_count cfg \<le> clicks_recorded s")
      case True
      then have "r = Done (?s1\<lparr>run_reason := ''Limit reached''\<rparr>)"
        using run' click_loop_limit[OF ns, of cfg f] by simp
      then show ?thesis using u1 by simp
    next
      case nl: False
      note cyc = click_loop_cycle[OF ns nl, of f]
      let ?p = "?s1\<lparr>port_log := port_log ?s1 @ [MousePress (button cfg)]\<rparr>"
      from click_hold_press_cases[OF u1, of e cfg]
      show ?thesis
      proof (elim disjE conjE exE)
        fix m
        assume a: "click_hold_press e cfg ?s1 = Raised m ?p"
          and b: "raises e (length (port_log ?s1)) = Some m"
        have "r = Raised m ?p" using run' cyc hold a by simp
        then show ?thesis using u1 b by simp
      next
        let ?h = "?s1\<lparr>port_log := port_log ?s1 @ [MousePress (button cfg)], hold_pressed := True\<rparr>"
        let ?t1 = "poll e ?h"
        assume a: "click_hold_press e cfg ?s1 = Done ?h"
          and b: "raises e (length (port_log ?s1)) = None"
        have body: "click_loop (Suc f) e cfg s =
            (if stop_event ?t1 then Some (Done ?t1) else click_loop f e cfg ?t1)"
          using cyc hold a by simp
        have "\<exists>t. r = Done t \<and> port_log t = port_log ?t1 \<and> hold_pressed t
                \<and> clicks_recorded t = clicks_recorded ?t1"
        proof (cases "stop_event ?t1")
          case True
          then have "r = Done ?t1" using run' body by simp
          then show ?thesis by simp
        next
          case False
          then have "click_loop f e cfg ?t1 = Some r" using run' body by simp
          from click_loop_held[OF hold _ this] show ?thesis by simp
        qed
        then show ?thesis using b by auto
      qed
    qed
  qed
qed

lemma click_worker_hold:
  assumes hold: "mode cfg = ''hold''" and up: "\<not> hold_pressed s"
    and run: "click_worker fuel e cfg s = Some s'"
  shows "\<not> hold_pressed s' \<and> clicks_recorded s' = clicks_recorded s
       \<and> (port_log s' = port_log s
          \<or> (port_log s' = port_log s @ [MousePress (button cfg)]
               \<and> raises e (length (port_log s)) \<noteq> None)
          \<or> (port_log s' = port_log s @ [MousePress (button cfg), MouseRelease (button cfg)]
               \<and> raises e (length (port_log s)) = None))"
proof -
  from run obtain s1 r where s1: "start_delay_phase fuel e (start_delay cfg) s = Some s1"
    and r: "click_loop fuel e cfg s1 = Some r"
    and fin: "s' = (case r of Done s2 \<Rightarrow> click_finally e cfg s2
                    | Raised m s2 \<Rightarrow> click_finally e cfg (s2\<lparr>run_reason := ''Error: '' @ m\<rparr>))"
    by (auto simp: click_worker_def split: option.splits flow.splits)
  have k: "port_log s1 = port_log s" "clicks_recorded s1 = clicks_recorded s" "\<not> hold_pressed s1"
    using start_delay_phase_keeps[OF s1] start_delay_phase_keeps_mouse[OF s1] up by simp_all
  from click_loop_hold[OF hold k(3) r]
  show ?thesis
  proof (elim disjE exE conjE)
    fix t assume "r = Done t" "port_log t = port_log s1" "\<not> hold_pressed t"
      "clicks_recorded t = clicks_recorded s1"
    then show ?thesis using fin k by (simp add: click_finally_def)
  next
    fix m t assume "r = Raised m t" "port_log t = port_log s1 @ [MousePress (button cfg)]"
      "\<not> hold_pressed t" "clicks_recorded t = clicks_recorded s1"
      "raises e (length (port_log s1)) = Some m"
    then show ?thesis using fin k by (simp add: click_finally_def)
  next
    fix t assume "r = Done t" "port_log t = port_log s1 @ [MousePress (button cfg)]"
      "hold_pressed t" "clicks_recorded t = clicks_recorded s1"
      "raises e (length (port_log s1)) = None"
    then show ?thesis using fin k by (simp add: click_finally_def swallow_port)
  qed
qed

subsection \<open>Pressing and releasing a key sequence\<close>

lemma press_sequence_Done:
  "press_sequence e ks s = Done t \<Longrightarrow>
     t = s\<lparr>port_log := port_log s @ map KeyPress ks\<rparr>
     \<and> (\<forall>j < length ks. raises e (length (port_log s) + j) = None)"
proof (induction ks arbitrary: s)
  case Nil
  then show ?case by simp
next
  case (Cons k ks)
  from Cons.prems obtain u where u: "port e (KeyPress k) s = Done u"
    and rest: "press_sequence e ks u = Done t"
    by (auto split: flow.splits)
  from port_Done[OF u] have u': "u = s\<lparr>port_log := port_log s @ [KeyPress k]\<rparr>"
    and r0: "raises e (length (port_log s)) = None" by simp_all
  from Cons.IH[OF rest] have t: "t = u\<lparr>port_log := port_log u @ map KeyPress ks\<rparr>"
    and rs: "\<forall>j < length ks. raises e (length (port_log u) + j) = None" by simp_all
  have "\<forall>j < length (k # ks). raises e (length (port_log s) + j) = None"
  proof (intro allI impI)
    fix j assume "j < length (k # ks)"
    then show "raises e (length (port_log s) + j) = None"
      using r0 rs u' by (cases j) auto
  qed
  then show ?case using t u' by simp
qed

lemma press_sequence_Raised:
  "press_sequence e ks s = Raised m t \<Longrightarrow>
     \<exists>j < length ks. t = s\<lparr>port_log := port_log s @ map KeyPress (take (Suc j) ks)\<rparr>
        \<and> raises e (length (port_log s) + j) = Some m"
proof (induction ks arbitrary: s)
  case Nil
  then show ?case by simp
next
  case (Cons k ks)
  show ?case
  proof (cases "port e (KeyPress k) s")
    case (Raised m' u)
    then have "m' = m" "u = t" using Cons.prems by simp_all
    with port_Raised[OF Raised]
    have "t = s\<lparr>port_log := port_log s @ map KeyPress (take (Suc 0) (k # ks))\<rparr>
        \<and> raises e (length (port_log s) + 0) = Some m" by simp
    then show ?thesis by (intro exI[of _ 0]) simp
  next
    case (Done u)
    then have rest: "press_sequence e ks u = Raised m t" using Cons.prems by simp
    from port_Done[OF Done] have u': "u = s\<lparr>port_log := port_log s @ [KeyPress k]\<rparr>" by simp
    from Cons.IH[OF rest] obtain j where j: "j < length ks"
      "t = u\<lparr>port_log := port_log u @ map KeyPress (take (Suc j) ks)\<rparr>"
      "raises e (length (port_log u) + j) = Some m" by blast
    have "Suc j < length (k # ks)
        \<and> t = s\<lparr>port_log := port_log s @ map KeyPress (take (Suc (Suc j)) (k # ks))\<rparr>
        \<and> raises e (length (port_log s) + Suc j) = Some m"
      using j u' by simp
    then show ?thesis by blast
  qed
qed

lemma release_keys_Done:
  "release_keys e ks s = Done t \<Longrightarrow>
     t = s\<lparr>port_log := port_log s @ map KeyRelease ks\<rparr>
     \<and> (\<forall>j < length ks. raises e (length (port_log s) + j) = None)"
proof (induction ks arbitrary: s)
  case Nil
  then show ?case by simp
next
  case (Cons k ks)
  from Cons.prems obtain u where u: "port e (KeyRelease k) s = Done u"
    and rest: "release_keys e ks u = Done t"
    by (auto split: flow.splits)
  from port_Done[OF u] have u': "u = s\<lparr>port_log := port_log s @ [KeyRelease k]\<rparr>"
    and r0: "raises e (length (port_log s)) = None" by simp_all
  from Cons.IH[OF rest] have t: "t = u\<lparr>port_log := port_log u @ map KeyRelease ks\<rparr>"
    and rs: "\<forall>j < length ks. raises e (length (port_log u) + j) = None" by simp_all
  have "\<forall>j < length (k # ks). raises e (length (port_log s) + j) = None"
  proof (intro allI impI)
    fix j assume "j < length (k # ks)"
    then show "raises e (length (port_log s) + j) = None"
      using r0 rs u' by (cases j) auto
  qed
  then show ?case using t u' by simp
qed

lemma release_keys_Raised:
  "release_keys e ks s = Raised m t \<Longrightarrow>
     \<exists>j < length ks. t = s\<lparr>port_log := port_log s @ map KeyRelease (take (Suc j) ks)\<rparr>
        \<and> raises e (length (port_log s) + j) = Some m"
proof (induction ks arbitrary: s)
  case Nil
  then show ?case by simp
next
  case (Cons k ks)
  show ?case
  proof (cases "port e (KeyRelease k) s")
    case (Raised m' u)
    then have "m' = m" "u = t" using Cons.prems by simp_all
    with port_Raised[OF Raised]
    have "t = s\<lparr>port_log := port_log s @ map KeyRelease (take (Suc 0) (k # ks))\<rparr>
        \<and> raises e (length (port_log s) + 0) = Some m" by simp
    then show ?thesis by (intro exI[of _ 0]) simp
  next
    case (Done u)
    then have rest: "release_keys e ks u = Raised m t" using Cons.prems by simp
    from port_Done[OF Done] have u': "u = s\<lparr>port_log := port_log s @ [KeyRelease k]\<rparr>" by simp
    from Cons.IH[OF rest] obtain j where j: "j < length ks"
      "t = u\<lparr>port_log := port_log u @ map KeyRelease (take (Suc j) ks)\<rparr>"
      "raises e (length (port_log u) + j) = Some m" by blast
    have "Suc j < length (k # ks)
        \<and> t = s\<lparr>port_log := port_log s @ map KeyRelease (take (Suc (Suc j)) (k # ks))\<rparr>
        \<and> raises e (length (port_log s) + Suc j) = Some m"
      using j u' by simp
    then show ?thesis by blast
  qed
qed

text \<open>
  A release whose exceptions are swallowed: the calls are a prefix of the releases, the whole
  of them unless one of them raised, and then that one is the last call.
\<close>

lemma swallow_release_sequence:
  "\<exists>r \<le> length ks.
     swallow (release_sequence e ks s) = s\<lparr>port_log := port_log s @ map KeyRelease (take r (rev ks))\<rparr>
     \<and> (r = length ks \<or> (0 < r \<and> raises e (length (port_log s) + r - 1) \<noteq> None))
     \<and> ((\<forall>j < length ks. raises e (length (port_log s) + j) = None) \<longrightarrow> r = length ks)"
proof (cases "release_keys e (rev ks) s")
  case (Done t)
  from release_keys_Done[OF Done]
  have "swallow (release_sequence e ks s) = s\<lparr>port_log := port_log s @ map KeyRelease (take (length ks) (rev ks))\<rparr>"
    by (simp add: swallow_def release_sequence_def Done)
  then show ?thesis by (intro exI[of _ "length ks"]) simp
next
  case (Raised m t)
  from release_keys_Raised[OF Raised] obtain j where j: "j < length ks"
    "t = s\<lparr>port_log := port_log s @ map KeyRelease (take (Suc j) (rev ks))\<rparr>"
    "raises e (length (port_log s) + j) = Some m" by auto
  have "Suc j \<le> length ks
     \<and> swallow (release_sequence e ks s) = s\<lparr>port_log := port_log s @ map KeyRelease (take (Suc j) (rev ks))\<rparr>
     \<and> (Suc j = length ks \<or> (0 < Suc j \<and> raises e (length (port_log s) + Suc j - 1) \<noteq> None))
     \<and> ((\<forall>j < length ks. raises e (length (port_log s) + j) = None) \<longrightarrow> Suc j = length ks)"
    using j by (auto simp: swallow_def release_sequence_def Raised)
  then show ?thesis by blast
qed

subsection \<open>The key worker in hold mode\<close>

lemma key_loop_stop:
  "stop_event (poll e s) \<Longrightarrow> key_loop (Suc f) e cfg s = Some (Done (poll e s))"
  by (simp add: Let_def)

lemma key_loop_limit:
  "\<not> stop_event (poll e s) \<Longrightarrow> limit_enabled cfg \<Longrightarrow> limit_count cfg \<le> key_cycles_recorded s \<Longrightarrow>
   key_loop (Suc f) e cfg s = Some (Done ((poll e s)\<lparr>run_reason := ''Limit reached''\<rparr>))"
  by (simp add: Let_def)

lemma key_loop_cycle:
  assumes "\<not> stop_event (poll e s)"
    and "\<not> (limit_enabled cfg \<and> limit_count cfg \<le> key_cycles_recorded s)"
  shows "key_loop (Suc f) e cfg s =
     (case (if mode cfg = ''hold'' then key_hold_press e cfg (poll e s)
            else key_burst e cfg (nat (burst_count cfg)) (poll e s)) of
        Raised m t \<Rightarrow> Some (Raised m t)
      | Done t \<Rightarrow> (if stop_event (poll e t) then Some (Done (poll e t))
                    else key_loop f e cfg (poll e t)))"
proof (cases "limit_enabled cfg")
  case True
  with assms have "\<not> limit_count cfg \<le> key_cycles_recorded s" by simp
  with assms(1) show ?thesis by (simp add: Let_def split: flow.splits)
next
  case False
  with assms(1) show ?thesis by (simp add: Let_def split: flow.splits)
qed

lemma key_hold_press_held:
  "key_hold_active s \<Longrightarrow> key_hold_press e cfg s = Done s"
  by (simp add: key_hold_press_def)

lemma key_hold_press_Done:
  assumes "\<not> key_hold_active s" and "key_hold_press e cfg s = Done t"
  shows "port_log t = port_log s @ map KeyPress (sequence cfg) \<and> key_hold_active t
       \<and> key_cycles_recorded t = (if key_cycles_recorded s = 0 then 1 else key_cycles_recorded s)
       \<and> (\<forall>j < length (sequence cfg). raises e (length (port_log s) + j) = None)"
proof -
  from assms obtain u where u: "press_sequence e (sequence cfg) s = Done u"
    and t: "t = (if key_cycles_recorded (u\<lparr>key_hold_active := True\<rparr>) = 0
                 then u\<lparr>key_hold_active := True, key_cycles_recorded := 1\<rparr>
                 else u\<lparr>key_hold_active := True\<rparr>)"
    by (auto simp: key_hold_press_def Let_def split: flow.splits)
  from press_sequence_Done[OF u] show ?thesis using t by simp
qed

lemma key_hold_press_Raised:
  assumes "\<not> key_hold_active s" and "key_hold_press e cfg s = Raised m t"
  shows "\<exists>j < length (sequence cfg).
           port_log t = port_log s @ map KeyPress (take (Suc j) (sequence cfg))
           \<and> raises e (length (port_log s) + j) = Some m
           \<and> \<not> key_hold_active t \<and> key_cycles_recorded t = key_cycles_recorded s"
proof -
  from assms have u: "press_sequence e (sequence cfg) s = Raised m t"
    by (auto simp: key_hold_press_def Let_def split: flow.splits)
  from press_sequence_Raised[OF u] assms(1) show ?thesis by auto
qed

lemma key_loop_held:
  assumes "mode cfg = ''hold''"
  shows "key_hold_active s \<Longrightarrow> key_loop fuel e cfg s = Some r \<Longrightarrow>
     \<exists>t. r = Done t \<and> port_log t = port_log s \<and> key_hold_active t
          \<and> key_cycles_recorded t = key_cycles_recorded s"
proof (induction fuel arbitrary: s)
  case 0
  then show ?case by simp
next
  case (Suc fuel)
  let ?s1 = "poll e s"
  have h1: "key_hold_active ?s1" using Suc.prems(1) by simp
  show ?case
  proof (cases "stop_event ?s1")
    case True
    then have "r = Done ?s1" using Suc.prems(2) key_loop_stop[OF True] by simp
    then show ?thesis using h1 by simp
  next
    case ns: False
    show ?thesis
    proof (cases "limit_enabled cfg \<and> limit_count cfg \<le> key_cycles_recorded s")
      case True
      then have "r = Done (?s1\<lparr>run_reason := ''Limit reached''\<rparr>)"
        using Suc.prems(2) key_loop_limit[OF ns, of cfg fuel] by simp
      then show ?thesis using h1 by simp
    next
      case nl: False
      let ?t1 = "poll e ?s1"
      have body: "key_loop (Suc fuel) e cfg s =
            (if stop_event ?t1 then Some (Done ?t1) else key_loop fuel e cfg ?t1)"
        unfolding key_loop_cycle[OF ns nl] using assms h1 by (simp add: key_hold_press_held)
      show ?thesis
      proof (cases "stop_event ?t1")
        case True
        then have "r = Done ?t1" using Suc.prems(2) body by simp
        then show ?thesis using h1 by simp
      next
        case False
        then have "key_loop fuel e cfg ?t1 = Some r" using Suc.prems(2) body by simp
        from Suc.IH[OF _ this] h1 show ?thesis by simp
      qed
    qed
  qed
qed

lemma key_loop_hold:
  assumes hold: "mode cfg = ''hold''" and up: "\<not> key_hold_active s"
    and run: "key_loop fuel e cfg s = Some r"
  shows "(\<exists>t. r = Done t \<and> port_log t = port_log s \<and> \<not> key_hold_active t
              \<and> key_cycles_recorded t = key_cycles_recorded s)
       \<or> (\<exists>m t j. r = Raised m t \<and> j < length (sequence cfg)
              \<and> port_log t = port_log s @ map KeyPress (take (Suc j) (sequence cfg))
              \<and> \<not> key_hold_active t \<and> key_cycles_recorded t = key_cycles_recorded s
              \<and> raises e (length (port_log s) + j) = Some m)
       \<or> (\<exists>t. r = Done t \<and> port_log t = port_log s @ map KeyPress (sequence cfg)
              \<and> key_hold_active t
              \<and> key_cycles_recorded t = (if key_cycles_recorded s = 0 then 1 else key_cycles_recorded s)
              \<and> (\<forall>j < length (sequence cfg). raises e (length (port_log s) + j) = None))"
proof (cases fuel)
  case 0
  then show ?thesis using run by simp
next
  case (Suc f)
  let ?s1 = "poll e s"
  have u1: "\<not> key_hold_active ?s1" using up by simp
  have run': "key_loop (Suc f) e cfg s = Some r" using run Suc by simp
  show ?thesis
  proof (cases "stop_event ?s1")
    case True
    then have "r = Done ?s1" using run' key_loop_stop[OF True] by simp
    then show ?thesis using u1 by simp
  next
    case ns: False
    show ?thesis
    proof (cases "limit_enabled cfg \<and> limit_count cfg \<le> key_cycles_recorded s")
      case True
      then have "r = Done (?s1\<lparr>run_reason := ''Limit reached''\<rparr>)"
        using run' key_loop_limit[OF ns, of cfg f] by simp
      then show ?thesis using u1 by simp
    next
      case nl: False
      note cyc = key_loop_cycle[OF ns nl, of f]
      show ?thesis
      proof (cases "key_hold_press e cfg ?s1")
        case (Raised m t)
        have "r = Raised m t" using run' cyc hold Raised by simp
        moreover from key_hold_press_Raised[OF u1 Raised] obtain j where
          "j < length (sequence cfg)"
          "port_log t = port_log s @ map KeyPress (take (Suc j) (sequence cfg))"
          "raises e (length (port_log s) + j) = Some m"
          "\<not> key_hold_active t" "key_cycles_recorded t = key_cycles_recorded s"
          by auto
        ultimately show ?thesis by blast
      next
        case (Done h)
        let ?t1 = "poll e h"
        note hd = key_hold_press_Done[OF u1 Done]
        have body: "key_loop (Suc f) e cfg s =
            (if stop_event ?t1 then Some (Done ?t1) else key_loop f e cfg ?t1)"
          using cyc hold Done by simp
        have "\<exists>t. r = Done t \<and> port_log t = port_log ?t1 \<and> key_hold_active t
                \<and> key_cycles_recorded t = key_cycles_recorded ?t1"
        proof (cases "stop_event ?t1")
          case True
          then have "r = Done ?t1" using run' body by simp
          then show ?thesis using hd by simp
        next
          case False
          then have "key_loop f e cfg ?t1 = Some r" using run' body by simp
          from key_loop_held[OF hold _ this] hd show ?thesis by simp
        qed
        then obtain t where "r = Done t" "port_log t = port_log h" "key_hold_active t"
          "key_cycles_recorded t = key_cycles_recorded h" by auto
        then have "r = Done t \<and> port_log t = port_log s @ map KeyPress (sequence cfg)
              \<and> key_hold_active t
              \<and> key_cycles_recorded t = (if key_cycles_recorded s = 0 then 1 else key_cycles_recorded s)
              \<and> (\<forall>j < length (sequence cfg). raises e (length (port_log s) + j) = None)"
          using hd by simp
        then show ?thesis by blast
      qed
    qed
  qed
qed

lemma key_worker_hold:
  assumes hold: "mode cfg = ''hold''" and up: "\<not> key_hold_active s"
    and run: "key_worker fuel e cfg s = Some s'"
  shows "\<not> key_hold_active s'
       \<and> ((port_log s' = port_log s \<and> key_cycles_recorded s' = key_cycles_recorded s)
          \<or> (\<exists>j < length (sequence cfg).
                port_log s' = port_log s @ map KeyPress (take (Suc j) (sequence cfg))
                \<and> raises e (length (port_log s) + j) \<noteq> None
                \<and> key_cycles_recorded s' = key_cycles_recorded s)
          \<or> (\<exists>r \<le> length (sequence cfg).
                port_log s' = port_log s @ map KeyPress (sequence cfg)
                                @ map KeyRelease (take r (rev (sequence cfg)))
                \<and> (\<forall>j < length (sequence cfg). raises e (length (port_log s) + j) = None)
                \<and> (r = length (sequence cfg)
                     \<or> (0 < r \<and> raises e (length (port_log s) + length (sequence cfg) + r - 1) \<noteq> None))
                \<and> ((\<forall>j < length (sequence cfg).
                        raises e (length (port_log s) + length (sequence cfg) + j) = None)
                     \<longrightarrow> r = length (sequence cfg))
                \<and> key_cycles_recorded s' =
                    (if key_cycles_recorded s = 0 then 1 else key_cycles_recorded s)))"
proof -
  from run obtain s1 r where s1: "start_delay_phase fuel e (start_delay cfg) s = Some s1"
    and r: "key_loop fuel e cfg s1 = Some r"
    and fin: "s' = (case r of Done s2 \<Rightarrow> key_finally e cfg s2
                    | Raised m s2 \<Rightarrow> key_finally e cfg (s2\<lparr>run_reason := ''Error: '' @ m\<rparr>))"
    by (auto simp: key_worker_def split: option.splits flow.splits)
  have k: "port_log s1 = port_log s" "key_cycles_recorded s1 = key_cycles_recorded s"
      "\<not> key_hold_active s1"
    using start_delay_phase_keeps[OF s1] start_delay_phase_keeps_key[OF s1] up by simp_all
  from key_loop_hold[OF hold k(3) r]
  show ?thesis
  proof (elim disjE exE conjE)
    fix t assume "r = Done t" "port_log t = port_log s1" "\<not> key_hold_active t"
      "key_cycles_recorded t = key_cycles_recorded s1"
    then show ?thesis using fin k by (simp add: key_finally_def)
  next
    fix m t j assume a: "r = Raised m t" "j < length (sequence cfg)"
      "port_log t = port_log s1 @ map KeyPress (take (Suc j) (sequence cfg))"
      "\<not> key_hold_active t" "key_cycles_recorded t = key_cycles_recorded s1"
      "raises e (length (port_log s1) + j) = Some m"
    then have "\<not> key_hold_active s'"
       "port_log s' = port_log s @ map KeyPress (take (Suc j) (sequence cfg))"
       "raises e (length (port_log s) + j) \<noteq> None"
       "key_cycles_recorded s' = key_cycles_recorded s"
      using fin k by (simp_all add: key_finally_def)
    then show ?thesis using a(2) by blast
  next
    fix t assume a: "r = Done t" "port_log t = port_log s1 @ map KeyPress (sequence cfg)"
      "key_hold_active t"
      "key_cycles_recorded t = (if key_cycles_recorded s1 = 0 then 1 else key_cycles_recorded s1)"
      "\<forall>j < length (sequence cfg). raises e (length (port_log s1) + j) = None"
    from swallow_release_sequence[of "sequence cfg" e t]
    obtain q where q: "q \<le> length (sequence cfg)"
      "swallow (release_sequence e (sequence cfg) t) =
          t\<lparr>port_log := port_log t @ map KeyRelease (take q (rev (sequence cfg)))\<rparr>"
      "q = length (sequence cfg) \<or> (0 < q \<and> raises e (length (port_log t) + q - 1) \<noteq> None)"
      "(\<forall>j < length (sequence cfg). raises e (length (port_log t) + j) = None) \<longrightarrow> q = length (sequence cfg)"
      by blast
    have s': "s' = (t\<lparr>port_log := port_log t @ map KeyRelease (take q (rev (sequence cfg)))\<rparr>)
                     \<lparr>key_hold_active := False\<rparr>"
      using fin a(1,3) q(2) by (simp add: key_finally_def)
    have lt: "length (port_log t) = length (port_log s) + length (sequence cfg)"
      using a(2) k by simp
    have "\<not> key_hold_active s'"
      "port_log s' = port_log s @ map KeyPress (sequence cfg)
                                @ map KeyRelease (take q (rev (sequence cfg)))"
      "\<forall>j < length (sequence cfg). raises e (length (port_log s) + j) = None"
      "q = length (sequence cfg)
         \<or> (0 < q \<and> raises e (length (port_log s) + length (sequence cfg) + q - 1) \<noteq> None)"
      "(\<forall>j < length (sequence cfg).
           raises e (length (port_log s) + length (sequence cfg) + j) = None)
         \<longrightarrow> q = length (sequence cfg)"
      "key_cycles_recorded s' = (if key_cycles_recorded s = 0 then 1 else key_cycles_recorded s)"
      using s' a k q(3,4) lt by simp_all
    then show ?thesis using q(1) by blast
  qed
qed

lemma running_mouse_fields:
  "port_log (running_mouse cfg) = []" "observed (running_mouse cfg) = 0"
  "\<not> stop_event (running_mouse cfg)" "\<not> hold_pressed (running_mouse cfg)"
  "clicks_recorded (running_mouse cfg) = 0" "clock_reads (running_mouse cfg) = 0"
  by (simp_all add: running_mouse_def initial_mouse_state_def)

lemma running_keys_fields:
  "port_log (running_keys cfg) = []" "observed (running_keys cfg) = 0"
  "\<not> stop_event (running_keys cfg)" "\<not> key_hold_active (running_keys cfg)"
  "key_cycles_recorded (running_keys cfg) = 0" "clock_reads (running_keys cfg) = 0"
  by (simp_all add: running_keys_def initial_key_state_def)

lemma running_mouse_start:
  "start_clicking 0 (initial_click_form\<lparr>mode_var := ''hold''\<rparr>) initial_mouse_state
     = (running_mouse hold_click, None)"
  by (simp add: start_clicking_def collect_settings_def initial_click_form_def BUTTON_MAP_def
        running_mouse_def hold_click_def initial_mouse_state_def)



text \<open>
  Claim C9. In a hold-mode run that starts from the counters at 0: the click worker
  returns with \<open>clicks_recorded\<close> still 0; the key worker returns with
  \<open>key_cycles_recorded\<close> equal to 1 exactly when the press of the whole sequence went
  through, and 0 when the sequence was never pressed or a press raised. It is never more
  than 1.
\<close>

theorem hold_counters:
  "(mode cfg = ''hold'' \<and> \<not> hold_pressed s \<and> clicks_recorded s = 0
      \<and> click_worker fuel e cfg s = Some s' \<longrightarrow> clicks_recorded s' = 0)
   \<and> (mode kcfg = ''hold'' \<and> \<not> key_hold_active ks \<and> key_cycles_recorded ks = 0
      \<and> key_worker kfuel e kcfg ks = Some ks' \<longrightarrow>
        (key_cycles_recorded ks' = 0
           \<and> (port_log ks' = port_log ks
              \<or> (\<exists>j < length (sequence kcfg).
                    port_log ks' = port_log ks @ map KeyPress (take (Suc j) (sequence kcfg))
                    \<and> raises e (length (port_log ks) + j) \<noteq> None)))
        \<or> (key_cycles_recorded ks' = 1
           \<and> (\<forall>j < length (sequence kcfg). raises e (length (port_log ks) + j) = None)
           \<and> (\<exists>r \<le> length (sequence kcfg).
                 port_log ks' = port_log ks @ map KeyPress (sequence kcfg)
                                  @ map KeyRelease (take r (rev (sequence kcfg))))))"
proof (intro conjI impI)
  assume a: "mode cfg = ''hold'' \<and> \<not> hold_pressed s \<and> clicks_recorded s = 0
      \<and> click_worker fuel e cfg s = Some s'"
  then have "mode cfg = ''hold''" "\<not> hold_pressed s" "click_worker fuel e cfg s = Some s'"
    by simp_all
  from click_worker_hold[OF this] a show "clicks_recorded s' = 0" by simp
next
  assume a: "mode kcfg = ''hold'' \<and> \<not> key_hold_active ks \<and> key_cycles_recorded ks = 0
      \<and> key_worker kfuel e kcfg ks = Some ks'"
  then have "mode kcfg = ''hold''" "\<not> key_hold_active ks" "key_worker kfuel e kcfg ks = Some ks'"
    by simp_all
  note k = key_worker_hold[OF this, THEN conjunct2]
  have z: "key_cycles_recorded ks = 0" using a by simp
  from k show "(key_cycles_recorded ks' = 0
           \<and> (port_log ks' = port_log ks
              \<or> (\<exists>j < length (sequence kcfg).
                    port_log ks' = port_log ks @ map KeyPress (take (Suc j) (sequence kcfg))
                    \<and> raises e (length (port_log ks) + j) \<noteq> None)))
        \<or> (key_cycles_recorded ks' = 1
           \<and> (\<forall>j < length (sequence kcfg). raises e (length (port_log ks) + j) = None)
           \<and> (\<exists>r \<le> length (sequence kcfg).
                 port_log ks' = port_log ks @ map KeyPress (sequence kcfg)
                                  @ map KeyRelease (take r (rev (sequence kcfg)))))"
  proof (elim disjE)
    assume "port_log ks' = port_log ks \<and> key_cycles_recorded ks' = key_cycles_recorded ks"
    then show ?thesis using z by simp
  next
    assume "\<exists>j<length (sequence kcfg).
       port_log ks' = port_log ks @ map KeyPress (take (Suc j) (sequence kcfg)) \<and>
       raises e (length (port_log ks) + j) \<noteq> None \<and>
       key_cycles_recorded ks' = key_cycles_recorded ks"
    then obtain j where "j<length (sequence kcfg)"
       "port_log ks' = port_log ks @ map KeyPress (take (Suc j) (sequence kcfg))"
       "raises e (length (port_log ks) + j) \<noteq> None"
       "key_cycles_recorded ks' = 0" using z by auto
    then show ?thesis by blast
  next
    assume "\<exists>r\<le>length (sequence kcfg).
       port_log ks' =
       port_log ks @ map KeyPress (sequence kcfg) @ map KeyRelease (take r (rev (sequence kcfg))) \<and>
       (\<forall>j<length (sequence kcfg). raises e (length (port_log ks) + j) = None) \<and>
       (r = length (sequence kcfg) \<or>
        0 < r \<and> raises e (length (port_log ks) + length (sequence kcfg) + r - 1) \<noteq> None) \<and>
       ((\<forall>j<length (sequence kcfg).
            raises e (length (port_log ks) + length (sequence kcfg) + j) = None) \<longrightarrow>
        r = length (sequence kcfg)) \<and>
       key_cycles_recorded ks' = (if key_cycles_recorded ks = 0 then 1 else key_cycles_recorded ks)"
    then obtain r where "r\<le>length (sequence kcfg)"
       "port_log ks' =
       port_log ks @ map KeyPress (sequence kcfg) @ map KeyRelease (take r (rev (sequence kcfg)))"
       "\<forall>j<length (sequence kcfg). raises e (length (port_log ks) + j) = None"
       "key_cycles_recorded ks' = 1" using z by auto
    then show ?thesis by blast
  qed
qed

lemma hold_click_run:
  "click_worker 3 (stopped_at 3) hold_click (running_mouse hold_click) =
     Some ((running_mouse hold_click)\<lparr>stop_event := True, run_reason := ''Stopped'', observed := 4,
        port_log := [MousePress Button_left, MouseRelease Button_left]\<rparr>)"
  by (simp add: click_worker_def start_delay_phase_def click_finally_def click_hold_press_def
      poll_def request_def port_def swallow_def stopped_at_def quiet_def hold_click_def
      running_mouse_def initial_mouse_state_def eval_nat_numeral Let_def)

lemma hold_keys_run:
  "key_worker 3 (stopped_at 3) hold_keys (running_keys hold_keys) =
     Some ((running_keys hold_keys)\<lparr>stop_event := True, run_reason := ''Stopped'', observed := 4,
        port_log := [KeyPress (KeyMember ''shift''), KeyPress (KeyStr ''a''),
                     KeyRelease (KeyStr ''a''), KeyRelease (KeyMember ''shift'')],
        key_cycles_recorded := 1\<rparr>)"
  by (simp add: key_worker_def start_delay_phase_def key_finally_def key_hold_press_def
      release_sequence_def
      poll_def request_def port_def swallow_def stopped_at_def quiet_def hold_keys_def
      running_keys_def initial_key_state_def eval_nat_numeral Let_def)


theorem hold_counters_witness:
  "mode hold_click = ''hold'' \<and> \<not> hold_pressed (running_mouse hold_click)
   \<and> clicks_recorded (running_mouse hold_click) = 0
   \<and> click_worker 3 (stopped_at 3) hold_click (running_mouse hold_click) =
       Some ((running_mouse hold_click)\<lparr>stop_event := True, run_reason := ''Stopped'', observed := 4,
          port_log := [MousePress Button_left, MouseRelease Button_left]\<rparr>)
   \<and> clicks_recorded ((running_mouse hold_click)\<lparr>stop_event := True, run_reason := ''Stopped'',
          observed := 4, port_log := [MousePress Button_left, MouseRelease Button_left]\<rparr>) = 0
   \<and> mode hold_keys = ''hold'' \<and> \<not> key_hold_active (running_keys hold_keys)
   \<and> key_cycles_recorded (running_keys hold_keys) = 0
   \<and> key_worker 3 (stopped_at 3) hold_keys (running_keys hold_keys) =
       Some ((running_keys hold_keys)\<lparr>stop_event := True, run_reason := ''Stopped'', observed := 4,
          port_log := [KeyPress (KeyMember ''shift''), KeyPress (KeyStr ''a''),
                       KeyRelease (KeyStr ''a''), KeyRelease (KeyMember ''shift'')],
          key_cycles_recorded := 1\<rparr>)
   \<and> key_cycles_recorded ((running_keys hold_keys)\<lparr>stop_event := True, run_reason := ''Stopped'',
          observed := 4,
          port_log := [KeyPress (KeyMember ''shift''), KeyPress (KeyStr ''a''),
                       KeyRelease (KeyStr ''a''), KeyRelease (KeyMember ''shift'')],
          key_cycles_recorded := 1\<rparr>) = 1"
proof -
  let ?s = "running_mouse hold_click"
  let ?s' = "?s\<lparr>stop_event := True, run_reason := ''Stopped'', observed := 4,
          port_log := [MousePress Button_left, MouseRelease Button_left]\<rparr>"
  let ?k = "running_keys hold_keys"
  let ?k' = "?k\<lparr>stop_event := True, run_reason := ''Stopped'', observed := 4,
          port_log := [KeyPress (KeyMember ''shift''), KeyPress (KeyStr ''a''),
                       KeyRelease (KeyStr ''a''), KeyRelease (KeyMember ''shift'')],
          key_cycles_recorded := 1\<rparr>"
  have m: "mode hold_click = ''hold''" by (simp add: hold_click_def)
  have u: "\<not> hold_pressed ?s" by (simp add: running_mouse_fields)
  have z: "clicks_recorded ?s = 0" by (simp add: running_mouse_fields)
  have km: "mode hold_keys = ''hold''" by (simp add: hold_keys_def)
  have ku: "\<not> key_hold_active ?k" by (simp add: running_keys_fields)
  have kz: "key_cycles_recorded ?k = 0" by (simp add: running_keys_fields)
  note T = hold_counters[where cfg=hold_click and s="?s" and fuel=3 and e="stopped_at 3"
      and s'="?s'" and kcfg=hold_keys and ks="?k" and kfuel=3 and ks'="?k'"]
  have c: "clicks_recorded ?s' = 0"
    by (rule T[THEN conjunct1, THEN mp]) (intro conjI m u z hold_click_run)
  have "(key_cycles_recorded ?k' = 0
           \<and> (port_log ?k' = port_log ?k
              \<or> (\<exists>j < length (sequence hold_keys).
                    port_log ?k' = port_log ?k @ map KeyPress (take (Suc j) (sequence hold_keys))
                    \<and> raises (stopped_at 3) (length (port_log ?k) + j) \<noteq> None)))
        \<or> (key_cycles_recorded ?k' = 1
           \<and> (\<forall>j < length (sequence hold_keys). raises (stopped_at 3) (length (port_log ?k) + j) = None)
           \<and> (\<exists>r \<le> length (sequence hold_keys).
                 port_log ?k' = port_log ?k @ map KeyPress (sequence hold_keys)
                                  @ map KeyRelease (take r (rev (sequence hold_keys)))))"
    by (rule T[THEN conjunct2, THEN mp]) (intro conjI km ku kz hold_keys_run)
  then have kc: "key_cycles_recorded ?k' = 1" by simp
  show ?thesis using m u z hold_click_run c km ku kz hold_keys_run kc by (intro conjI)
qed

section \<open>Properties of a burst\<close>

subsection \<open>Bursts that nobody interrupts\<close>

lemma poll_undisturbed:
  "\<forall>n. cancel e n = None \<Longrightarrow> poll e s = s\<lparr>observed := Suc (observed s)\<rparr>"
  by (simp add: poll_def)

lemma burst_pause_undisturbed:
  assumes "\<forall>n. cancel e n = None"
  shows "\<exists>k. burst_pause e b s = s\<lparr>observed := observed s + k\<rparr>"
proof (cases "b > 1")
  case True
  show ?thesis
  proof (cases "stop_event s")
    case True
    with \<open>b > 1\<close> have "burst_pause e b s = s\<lparr>observed := observed s + 1\<rparr>"
      by (simp add: burst_pause_def poll_undisturbed[OF assms])
    then show ?thesis by blast
  next
    case False
    with \<open>b > 1\<close> have "burst_pause e b s = s\<lparr>observed := observed s + 2\<rparr>"
      by (simp add: burst_pause_def poll_undisturbed[OF assms])
    then show ?thesis by blast
  qed
next
  case False
  then have "burst_pause e b s = s\<lparr>observed := observed s + 0\<rparr>"
    by (simp add: burst_pause_def)
  then show ?thesis by blast
qed

lemma click_burst_undisturbed:
  assumes c: "\<forall>n. cancel e n = None" and r: "\<forall>n. raises e n = None"
  shows "\<not> stop_event s \<Longrightarrow>
     \<exists>t. click_burst e cfg n s = Done t \<and> \<not> stop_event t
        \<and> clicks_recorded t = clicks_recorded s + (if mode cfg = ''double'' then 2 else 1) * int n
        \<and> port_log t = port_log s @
             replicate n (MouseClick (button cfg) (if mode cfg = ''double'' then 2 else 1))
        \<and> hold_pressed t = hold_pressed s"
proof (induction n arbitrary: s)
  case 0
  then show ?case by simp
next
  case (Suc n)
  let ?k = "if mode cfg = ''double'' then 2 else 1 :: int"
  let ?s1 = "poll e s"
  have s1: "?s1 = s\<lparr>observed := Suc (observed s)\<rparr>" by (rule poll_undisturbed[OF c])
  have ns: "\<not> stop_event ?s1" using Suc.prems s1 by simp
  let ?s2 = "?s1\<lparr>port_log := port_log ?s1 @ [MouseClick (button cfg) ?k]\<rparr>"
  have p: "port e (MouseClick (button cfg) ?k) ?s1 = Done ?s2"
    using r by (simp add: port_def)
  let ?s3 = "?s2\<lparr>clicks_recorded := clicks_recorded ?s2 + ?k\<rparr>"
  obtain j where j: "burst_pause e (burst_count cfg) ?s3 = ?s3\<lparr>observed := observed ?s3 + j\<rparr>"
    using burst_pause_undisturbed[OF c] by blast
  let ?s4 = "?s3\<lparr>observed := observed ?s3 + j\<rparr>"
  have step: "click_burst e cfg (Suc n) s = click_burst e cfg n ?s4"
    using ns p j by (simp add: Let_def)
  have ns4: "\<not> stop_event ?s4" using Suc.prems s1 by simp
  from Suc.IH[OF ns4] obtain t where t: "click_burst e cfg n ?s4 = Done t" "\<not> stop_event t"
    "clicks_recorded t = clicks_recorded ?s4 + ?k * int n"
    "port_log t = port_log ?s4 @ replicate n (MouseClick (button cfg) ?k)"
    "hold_pressed t = hold_pressed ?s4" by blast
  have "click_burst e cfg (Suc n) s = Done t \<and> \<not> stop_event t
        \<and> clicks_recorded t = clicks_recorded s + ?k * int (Suc n)
        \<and> port_log t = port_log s @ replicate (Suc n) (MouseClick (button cfg) ?k)
        \<and> hold_pressed t = hold_pressed s"
    using step t s1 by (simp add: algebra_simps replicate_append_same)
  then show ?case by blast
qed

lemma press_sequence_undisturbed:
  "\<forall>n. raises e n = None \<Longrightarrow>
   press_sequence e ks s = Done (s\<lparr>port_log := port_log s @ map KeyPress ks\<rparr>)"
  by (induction ks arbitrary: s) (simp_all add: port_def)

lemma release_keys_undisturbed:
  "\<forall>n. raises e n = None \<Longrightarrow>
   release_keys e ks s = Done (s\<lparr>port_log := port_log s @ map KeyRelease ks\<rparr>)"
  by (induction ks arbitrary: s) (simp_all add: port_def)

text \<open>One tap: the sequence goes down in order and comes up in reverse order.\<close>

lemma tap_sequence_undisturbed:
  assumes "\<forall>n. raises e n = None"
  shows "tap_sequence e ks n s =
     Done (s\<lparr>port_log := port_log s @
              concat (replicate n (map KeyPress ks @ map KeyRelease (rev ks)))\<rparr>)"
proof (induction n arbitrary: s)
  case 0
  then show ?case by simp
next
  case (Suc n)
  show ?case
    by (simp add: press_sequence_undisturbed[OF assms] release_sequence_def
          release_keys_undisturbed[OF assms] Suc.IH)
qed

lemma key_burst_undisturbed:
  assumes c: "\<forall>n. cancel e n = None" and r: "\<forall>n. raises e n = None"
  shows "\<not> stop_event s \<Longrightarrow>
     \<exists>t. key_burst e cfg n s = Done t \<and> \<not> stop_event t
        \<and> key_cycles_recorded t = key_cycles_recorded s + int n
        \<and> port_log t = port_log s @
             concat (replicate (n * (if mode cfg = ''double'' then 2 else 1))
                       (map KeyPress (sequence cfg) @ map KeyRelease (rev (sequence cfg))))
        \<and> key_hold_active t = key_hold_active s"
proof (induction n arbitrary: s)
  case 0
  then show ?case by simp
next
  case (Suc n)
  let ?k = "if mode cfg = ''double'' then 2 else 1 :: nat"
  let ?tap = "map KeyPress (sequence cfg) @ map KeyRelease (rev (sequence cfg))"
  let ?s1 = "poll e s"
  have s1: "?s1 = s\<lparr>observed := Suc (observed s)\<rparr>" by (rule poll_undisturbed[OF c])
  have ns: "\<not> stop_event ?s1" using Suc.prems s1 by simp
  let ?s2 = "?s1\<lparr>port_log := port_log ?s1 @ concat (replicate ?k ?tap)\<rparr>"
  have p: "tap_sequence e (sequence cfg) ?k ?s1 = Done ?s2"
    by (rule tap_sequence_undisturbed[OF r])
  let ?s3 = "?s2\<lparr>key_cycles_recorded := key_cycles_recorded ?s2 + 1\<rparr>"
  obtain j where j: "burst_pause e (burst_count cfg) ?s3 = ?s3\<lparr>observed := observed ?s3 + j\<rparr>"
    using burst_pause_undisturbed[OF c] by blast
  let ?s4 = "?s3\<lparr>observed := observed ?s3 + j\<rparr>"
  have step: "key_burst e cfg (Suc n) s = key_burst e cfg n ?s4"
    using ns p j by (simp add: Let_def)
  have ns4: "\<not> stop_event ?s4" using Suc.prems s1 by simp
  from Suc.IH[OF ns4] obtain t where t: "key_burst e cfg n ?s4 = Done t" "\<not> stop_event t"
    "key_cycles_recorded t = key_cycles_recorded ?s4 + int n"
    "port_log t = port_log ?s4 @ concat (replicate (n * ?k) ?tap)"
    "key_hold_active t = key_hold_active ?s4" by blast
  have "replicate ?k ?tap @ replicate (n * ?k) ?tap = replicate (Suc n * ?k) ?tap"
    by (simp add: replicate_add[symmetric] del: replicate_add)
  then have cc: "concat (replicate ?k ?tap) @ concat (replicate (n * ?k) ?tap)
      = concat (replicate (Suc n * ?k) ?tap)"
    by (metis concat_append)
  have "key_burst e cfg (Suc n) s = Done t \<and> \<not> stop_event t
        \<and> key_cycles_recorded t = key_cycles_recorded s + int (Suc n)
        \<and> port_log t = port_log s @ concat (replicate (Suc n * ?k) ?tap)
        \<and> key_hold_active t = key_hold_active s"
    using step t s1 cc by simp
  then show ?case by blast
qed

text \<open>
  Claim C2 as stated fails for the key worker in double mode: a burst of one repetition
  taps the key twice (four controller calls) and adds 1 to \<open>key_cycles_recorded\<close>, not 2.
\<close>

theorem double_key_burst_counts_one:
  "mode double_keys = ''double'' \<and> burst_count double_keys = 1
   \<and> key_burst quiet double_keys (nat (burst_count double_keys)) (running_keys double_keys) =
       Done ((running_keys double_keys)\<lparr>observed := 1,
               port_log := [KeyPress (KeyStr ''a''), KeyRelease (KeyStr ''a''),
                            KeyPress (KeyStr ''a''), KeyRelease (KeyStr ''a'')],
               key_cycles_recorded := 1\<rparr>)
   \<and> key_cycles_recorded ((running_keys double_keys)\<lparr>observed := 1,
               port_log := [KeyPress (KeyStr ''a''), KeyRelease (KeyStr ''a''),
                            KeyPress (KeyStr ''a''), KeyRelease (KeyStr ''a'')],
               key_cycles_recorded := 1\<rparr>)
       - key_cycles_recorded (running_keys double_keys) \<noteq> 2 * burst_count double_keys"
proof -
  have a: "mode double_keys = ''double''" "burst_count double_keys = 1"
    by (simp_all add: double_keys_def)
  have b: "key_burst quiet double_keys (nat (burst_count double_keys)) (running_keys double_keys) =
       Done ((running_keys double_keys)\<lparr>observed := 1,
               port_log := [KeyPress (KeyStr ''a''), KeyRelease (KeyStr ''a''),
                            KeyPress (KeyStr ''a''), KeyRelease (KeyStr ''a'')],
               key_cycles_recorded := 1\<rparr>)"
    by (simp add: double_keys_def running_keys_def initial_key_state_def quiet_def poll_def
          port_def release_sequence_def burst_pause_def eval_nat_numeral Let_def)
  have c: "key_cycles_recorded ((running_keys double_keys)\<lparr>observed := 1,
               port_log := [KeyPress (KeyStr ''a''), KeyRelease (KeyStr ''a''),
                            KeyPress (KeyStr ''a''), KeyRelease (KeyStr ''a'')],
               key_cycles_recorded := 1\<rparr>)
       - key_cycles_recorded (running_keys double_keys) \<noteq> 2 * burst_count double_keys"
    by (simp add: double_keys_def running_keys_def initial_key_state_def)
  show ?thesis using a b c by (intro conjI)
qed

text \<open>
  Claim C2, amended. Take a burst that no stop interrupts and in which no controller
  call raises, with \<open>burst_count\<close> at least 1. Click worker: the burst makes
  \<open>burst_count\<close> click calls, each of 2 clicks in double mode and of 1 click otherwise,
  and \<open>clicks_recorded\<close> grows by that number of clicks. Key worker: the burst taps the
  sequence \<open>burst_count\<close> times, twice each in double mode, and \<open>key_cycles_recorded\<close>
  grows by \<open>burst_count\<close>, one per repetition in every mode.
\<close>

theorem burst_counts:
  "((\<forall>n. cancel e n = None) \<and> (\<forall>n. raises e n = None) \<and> \<not> stop_event s \<and> 1 \<le> burst_count cfg
      \<longrightarrow> (\<exists>t. click_burst e cfg (nat (burst_count cfg)) s = Done t
            \<and> clicks_recorded t =
                clicks_recorded s + (if mode cfg = ''double'' then 2 else 1) * burst_count cfg
            \<and> port_log t = port_log s @
                replicate (nat (burst_count cfg))
                  (MouseClick (button cfg) (if mode cfg = ''double'' then 2 else 1))))
   \<and> ((\<forall>n. cancel e n = None) \<and> (\<forall>n. raises e n = None) \<and> \<not> stop_event ks
        \<and> 1 \<le> burst_count kcfg
      \<longrightarrow> (\<exists>t. key_burst e kcfg (nat (burst_count kcfg)) ks = Done t
            \<and> key_cycles_recorded t = key_cycles_recorded ks + burst_count kcfg
            \<and> port_log t = port_log ks @
                concat (replicate (nat (burst_count kcfg) * (if mode kcfg = ''double'' then 2 else 1))
                          (map KeyPress (sequence kcfg) @ map KeyRelease (rev (sequence kcfg))))))"
proof (intro conjI impI)
  assume a: "(\<forall>n. cancel e n = None) \<and> (\<forall>n. raises e n = None) \<and> \<not> stop_event s
      \<and> 1 \<le> burst_count cfg"
  then have c: "\<forall>n. cancel e n = None" and r: "\<forall>n. raises e n = None" and ns: "\<not> stop_event s"
    and b: "int (nat (burst_count cfg)) = burst_count cfg" by simp_all
  from click_burst_undisturbed[OF c r ns, of cfg "nat (burst_count cfg)"]
  show "\<exists>t. click_burst e cfg (nat (burst_count cfg)) s = Done t
            \<and> clicks_recorded t =
                clicks_recorded s + (if mode cfg = ''double'' then 2 else 1) * burst_count cfg
            \<and> port_log t = port_log s @
                replicate (nat (burst_count cfg))
                  (MouseClick (button cfg) (if mode cfg = ''double'' then 2 else 1))"
    unfolding b by blast
next
  assume a: "(\<forall>n. cancel e n = None) \<and> (\<forall>n. raises e n = None) \<and> \<not> stop_event ks
      \<and> 1 \<le> burst_count kcfg"
  then have c: "\<forall>n. cancel e n = None" and r: "\<forall>n. raises e n = None" and ns: "\<not> stop_event ks"
    and b: "int (nat (burst_count kcfg)) = burst_count kcfg" by simp_all
  from key_burst_undisturbed[OF c r ns, of kcfg "nat (burst_count kcfg)"]
  show "\<exists>t. key_burst e kcfg (nat (burst_count kcfg)) ks = Done t
            \<and> key_cycles_recorded t = key_cycles_recorded ks + burst_count kcfg
            \<and> port_log t = port_log ks @
                concat (replicate (nat (burst_count kcfg) * (if mode kcfg = ''double'' then 2 else 1))
                          (map KeyPress (sequence kcfg) @ map KeyRelease (rev (sequence kcfg))))"
    unfolding b by blast
qed

theorem burst_counts_witness:
  "(\<forall>n. cancel quiet n = None) \<and> (\<forall>n. raises quiet n = None)
   \<and> \<not> stop_event (running_mouse (hold_click\<lparr>mode := ''double'', burst_count := 3\<rparr>))
   \<and> 1 \<le> burst_count (hold_click\<lparr>mode := ''double'', burst_count := 3\<rparr>)
   \<and> (\<exists>t. click_burst quiet (hold_click\<lparr>mode := ''double'', burst_count := 3\<rparr>) 3
              (running_mouse (hold_click\<lparr>mode := ''double'', burst_count := 3\<rparr>)) = Done t
          \<and> clicks_recorded t = 6
          \<and> port_log t = [MouseClick Button_left 2, MouseClick Button_left 2, MouseClick Button_left 2])
   \<and> \<not> stop_event (running_keys double_keys) \<and> 1 \<le> burst_count double_keys
   \<and> (\<exists>t. key_burst quiet double_keys 1 (running_keys double_keys) = Done t
          \<and> key_cycles_recorded t = 1
          \<and> port_log t = [KeyPress (KeyStr ''a''), KeyRelease (KeyStr ''a''),
                           KeyPress (KeyStr ''a''), KeyRelease (KeyStr ''a'')])"
proof -
  let ?cfg = "hold_click\<lparr>mode := ''double'', burst_count := 3\<rparr>"
  let ?s = "running_mouse ?cfg"
  let ?k = "running_keys double_keys"
  have q: "\<forall>n. cancel quiet n = None" "\<forall>n. raises quiet n = None"
    by (simp_all add: quiet_def)
  have ns: "\<not> stop_event ?s" and b: "1 \<le> burst_count ?cfg"
    by (simp_all add: running_mouse_def initial_mouse_state_def)
  have kns: "\<not> stop_event ?k" and kb: "1 \<le> burst_count double_keys"
    by (simp_all add: running_keys_def initial_key_state_def double_keys_def)
  note T = burst_counts[where e=quiet and s="?s" and cfg="?cfg" and ks="?k" and kcfg=double_keys]
  have "\<exists>t. click_burst quiet ?cfg (nat (burst_count ?cfg)) ?s = Done t
            \<and> clicks_recorded t =
                clicks_recorded ?s + (if mode ?cfg = ''double'' then 2 else 1) * burst_count ?cfg
            \<and> port_log t = port_log ?s @
                replicate (nat (burst_count ?cfg))
                  (MouseClick (button ?cfg) (if mode ?cfg = ''double'' then 2 else 1))"
    by (rule T[THEN conjunct1, THEN mp]) (intro conjI q ns b)
  then obtain t where t: "click_burst quiet ?cfg (nat (burst_count ?cfg)) ?s = Done t
            \<and> clicks_recorded t =
                clicks_recorded ?s + (if mode ?cfg = ''double'' then 2 else 1) * burst_count ?cfg
            \<and> port_log t = port_log ?s @
                replicate (nat (burst_count ?cfg))
                  (MouseClick (button ?cfg) (if mode ?cfg = ''double'' then 2 else 1))"
    by (elim exE)
  have c1: "\<exists>t. click_burst quiet ?cfg 3 ?s = Done t \<and> clicks_recorded t = 6
          \<and> port_log t = [MouseClick Button_left 2, MouseClick Button_left 2, MouseClick Button_left 2]"
    by (rule exI[of _ t])
       (use t in \<open>simp add: running_mouse_def initial_mouse_state_def hold_click_def eval_nat_numeral\<close>)
  have "\<exists>t. key_burst quiet double_keys (nat (burst_count double_keys)) ?k = Done t
            \<and> key_cycles_recorded t = key_cycles_recorded ?k + burst_count double_keys
            \<and> port_log t = port_log ?k @
                concat (replicate (nat (burst_count double_keys) * (if mode double_keys = ''double'' then 2 else 1))
                          (map KeyPress (sequence double_keys) @ map KeyRelease (rev (sequence double_keys))))"
    by (rule T[THEN conjunct2, THEN mp]) (intro conjI q kns kb)
  then obtain u where u: "key_burst quiet double_keys (nat (burst_count double_keys)) ?k = Done u
            \<and> key_cycles_recorded u = key_cycles_recorded ?k + burst_count double_keys
            \<and> port_log u = port_log ?k @
                concat (replicate (nat (burst_count double_keys) * (if mode double_keys = ''double'' then 2 else 1))
                          (map KeyPress (sequence double_keys) @ map KeyRelease (rev (sequence double_keys))))"
    by (elim exE)
  have c2: "\<exists>t. key_burst quiet double_keys 1 ?k = Done t \<and> key_cycles_recorded t = 1
          \<and> port_log t = [KeyPress (KeyStr ''a''), KeyRelease (KeyStr ''a''),
                           KeyPress (KeyStr ''a''), KeyRelease (KeyStr ''a'')]"
    by (rule exI[of _ u])
       (use u in \<open>simp add: running_keys_def initial_key_state_def double_keys_def eval_nat_numeral\<close>)
  show ?thesis using q ns b c1 kns kb c2 by (intro conjI)
qed

section \<open>Properties of the run limit\<close>

subsection \<open>How far a burst can move the counter, whatever happens\<close>







subsection \<open>The counter never passes the limit by a whole burst\<close>









subsection \<open>More fuel does not change a result\<close>







subsection \<open>Left alone, a worker with a limit stops at the limit\<close>












section \<open>Properties of macro playback\<close>

subsection \<open>Applying events\<close>


lemma calls_of_simps [simp]:
  "calls_of [] = []"
  "calls_of (ev # evs) = event_calls ev @ calls_of evs"
  "calls_of (xs @ ys) = calls_of xs @ calls_of ys"
  by (simp_all add: calls_of_def)





subsection \<open>One pass over the events\<close>




subsection \<open>All loops\<close>


subsection \<open>The playback worker\<close>















end
